(* ===== verification/Prelude.thy ===== *)
theory Prelude
  imports Complex_Main "HOL-Library.Multiset"
begin

text \<open>
  Shared vocabulary of the development: the Python values that reach the
  websocket consumer after \<open>json.loads\<close>, the exceptions the handlers raise or
  catch, Python's comparison and string indexing on those values, and the two
  Django ORM primitives the handlers use on a table, \<open>objects.get\<close> and
  \<open>save()\<close>.  A table is a list of rows in primary-key order.  The generic
  lemmas about them are collected in \<open>table_simps\<close> and \<open>board_simps\<close>.
\<close>

named_theorems table_simps "facts about the ORM table helpers"
named_theorems board_simps "facts about counting the marks of a board"

type_synonym uid = nat
type_synonym room_code = string
type_synonym channel = string

section \<open>Exceptions and Python values\<close>

datatype py_error =
    DoesNotExist
  | MultipleObjectsReturned
  | TypeError
  | IndexError
  | KeyError
  | ValueError
  | AttributeError

text \<open>
  A JSON document decodes to one of these; \<open>PyBool\<close> is kept apart from
  \<open>PyInt\<close> because Python's \<open>bool\<close> is a subclass of \<open>int\<close>
  (\<open>True\<close> compares and indexes as 1).
\<close>

datatype pyval =
    PyNone
  | PyBool bool
  | PyInt int
  | PyFloat rat
  | PyStr string
  | PyList "pyval list"
  | PyDict "(string \<times> pyval) list"

fun py_num :: "pyval \<Rightarrow> rat option" where
  "py_num (PyBool b) = Some (if b then 1 else 0)"
| "py_num (PyInt i) = Some (of_int i)"
| "py_num (PyFloat r) = Some r"
| "py_num _ = None"

text \<open>The integral values: what Python accepts as a sequence index.\<close>

fun py_int_of :: "pyval \<Rightarrow> int option" where
  "py_int_of (PyBool b) = Some (if b then 1 else 0)"
| "py_int_of (PyInt i) = Some i"
| "py_int_of _ = None"

text \<open>
  \<open>a <= b\<close> where one side is a number, as in the consumer's range check:
  a number against a non-number raises \<open>TypeError\<close>.
\<close>

definition py_le_num :: "pyval \<Rightarrow> pyval \<Rightarrow> py_error + bool" where
  "py_le_num a b =
     (case (py_num a, py_num b) of
        (Some x, Some y) \<Rightarrow> Inr (x \<le> y)
      | _ \<Rightarrow> Inl TypeError)"

text \<open>\<open>s[v]\<close> on a \<open>str\<close>: negative indices count from the end.\<close>

definition py_str_index :: "string \<Rightarrow> pyval \<Rightarrow> py_error + char" where
  "py_str_index s v =
     (case py_int_of v of
        None \<Rightarrow> Inl TypeError
      | Some i \<Rightarrow>
          (let n = int (length s); j = (if i < 0 then n + i else i)
           in if 0 \<le> j \<and> j < n then Inr (s ! nat j) else Inl IndexError))"

text \<open>\<open>d.get(k)\<close> on a decoded JSON object: the last binding of a key wins.\<close>

definition dict_get :: "(string \<times> pyval) list \<Rightarrow> string \<Rightarrow> pyval" where
  "dict_get kvs k = (case map_of (rev kvs) k of None \<Rightarrow> PyNone | Some v \<Rightarrow> v)"

section \<open>ORM table primitives\<close>

text \<open>\<open>Model.objects.get(...)\<close>: exactly one matching row, or an exception.\<close>

definition db_get :: "('a \<Rightarrow> bool) \<Rightarrow> 'a list \<Rightarrow> py_error + 'a" where
  "db_get P xs =
     (case filter P xs of
        [] \<Rightarrow> Inl DoesNotExist
      | [x] \<Rightarrow> Inr x
      | _ \<Rightarrow> Inl MultipleObjectsReturned)"

text \<open>\<open>obj.save()\<close> on an existing row: overwrite the row with the same key.\<close>

definition db_save :: "('a \<Rightarrow> 'k) \<Rightarrow> 'a \<Rightarrow> 'a list \<Rightarrow> 'a list" where
  "db_save key x xs = map (\<lambda>y. if key y = key x then x else y) xs"

section \<open>Generic lemmas\<close>

lemma db_get_Inr [table_simps]:
  "db_get P xs = Inr x \<Longrightarrow> x \<in> set xs \<and> P x"
proof -
  assume "db_get P xs = Inr x"
  then have "filter P xs = [x]"
    by (auto simp: db_get_def split: list.splits)
  then have "x \<in> set (filter P xs)" by simp
  then show ?thesis by simp
qed

lemma db_get_unique [table_simps]:
  assumes "distinct (map k xs)" and "x \<in> set xs" and "k x = a"
  shows "db_get (\<lambda>y. k y = a) xs = Inr x"
proof -
  have "filter (\<lambda>y. k y = a) xs = [x]"
    using assms
  proof (induction xs)
    case Nil
    then show ?case by simp
  next
    case (Cons y ys)
    then show ?case
      by (auto simp: filter_empty_conv image_iff)
  qed
  then show ?thesis by (simp add: db_get_def)
qed

lemma db_get_absent [table_simps]:
  "\<not> list_ex P xs \<Longrightarrow> db_get P xs = Inl DoesNotExist"
  by (simp add: db_get_def filter_empty_conv list_ex_iff)

lemma db_get_not_multiple [table_simps]:
  assumes "distinct (map k xs)"
  shows "db_get (\<lambda>y. k y = a) xs \<noteq> Inl MultipleObjectsReturned"
proof (cases "\<exists>x \<in> set xs. k x = a")
  case True
  then obtain x where "x \<in> set xs" "k x = a" by blast
  with assms show ?thesis by (simp add: db_get_unique)
next
  case False
  then show ?thesis by (simp add: db_get_absent list_ex_iff)
qed

lemma db_save_map_key [table_simps]:
  "map key (db_save key x xs) = map key xs"
  by (induction xs) (auto simp: db_save_def)

lemma db_save_set [table_simps]:
  "y \<in> set (db_save key x xs) \<Longrightarrow> y = x \<or> y \<in> set xs \<and> key y \<noteq> key x"
  by (auto simp: db_save_def)

lemma db_save_map_same [table_simps]:
  "list_all (\<lambda>y. key y \<noteq> key x \<or> f y = f x) xs \<Longrightarrow> map f (db_save key x xs) = map f xs"
  by (induction xs) (auto simp: db_save_def)

lemma distinct_key_eq [table_simps]:
  "distinct (map k xs) \<Longrightarrow> x \<in> set xs \<Longrightarrow> y \<in> set xs \<Longrightarrow> k x = k y \<Longrightarrow> x = y"
  by (metis distinct_map inj_onD)

lemma db_save_mem [table_simps]:
  "x' \<in> set xs \<Longrightarrow> key x' = key x \<Longrightarrow> x \<in> set (db_save key x xs)"
  by (force simp: db_save_def)

lemma db_save_other [table_simps]:
  "y \<in> set xs \<Longrightarrow> key y \<noteq> key x \<Longrightarrow> y \<in> set (db_save key x xs)"
  by (force simp: db_save_def)

lemma py_str_index_nat [simp]:
  "py_str_index s (PyInt (int i)) = (if i < length s then Inr (s ! i) else Inl IndexError)"
  by (simp add: py_str_index_def)

lemma count_list_update [board_simps]:
  "i < length xs \<Longrightarrow>
   count_list (xs[i := y]) z =
     count_list xs z - (if xs ! i = z then 1 else 0) + (if y = z then 1 else 0)"
proof (induction xs arbitrary: i)
  case Nil
  then show ?case by simp
next
  case (Cons x xs)
  show ?case
  proof (cases i)
    case 0
    then show ?thesis by simp
  next
    case (Suc j)
    with Cons.prems have "j < length xs" by simp
    then have "xs ! j = z \<Longrightarrow> 0 < count_list xs z"
      by (metis count_list_0_iff gr0I nth_mem)
    with Cons.IH [OF \<open>j < length xs\<close>] Suc show ?thesis by auto
  qed
qed

end
