(* ===== verification/Models.thy ===== *)
theory Models
  imports Prelude
begin

text \<open>
  The persistent data of the program (\<open>src/game/models.py\<close>,
  \<open>src/authenticate/models.py\<close>): the \<open>Game\<close> row that is the authoritative
  match state, the append-only \<open>GameMove\<close> log, the \<open>User\<close> row, and the
  database that holds the three tables.  Foreign keys to \<open>User\<close> are user ids.
  The board is the 9-character \<open>CharField\<close> of the code: \<open>-\<close> empty,
  \<open>X\<close> for player1, \<open>O\<close> for player2.  The timestamps
  (\<open>created_at\<close>, \<open>updated_at\<close>) are not modelled: no handler reads them.
  The section ends with the well-formedness of a game row, \<open>wf_game\<close>, the
  invariant of spec section 3, as the code actually keeps it.
\<close>

section \<open>Rows and tables\<close>

datatype status = PENDING | IN_PROGRESS | COMPLETED

fun status_rank :: "status \<Rightarrow> nat" where
  "status_rank PENDING = 0"
| "status_rank IN_PROGRESS = 1"
| "status_rank COMPLETED = 2"

text \<open>
  The order of the \<open>GAME_STATUS\<close> choices is the order of the life cycle;
  the instance lets the library's order lemmas speak of status monotonicity.
\<close>

instantiation status :: linorder
begin

definition less_eq_status :: "status \<Rightarrow> status \<Rightarrow> bool" where
  "less_eq_status a b \<longleftrightarrow> status_rank a \<le> status_rank b"

definition less_status :: "status \<Rightarrow> status \<Rightarrow> bool" where
  "less_status a b \<longleftrightarrow> status_rank a < status_rank b"

instance
proof
  fix a b c :: status
  show "a < b \<longleftrightarrow> a \<le> b \<and> \<not> b \<le> a"
    by (auto simp: less_eq_status_def less_status_def)
  show "a \<le> a" by (simp add: less_eq_status_def)
  show "a \<le> b \<Longrightarrow> b \<le> c \<Longrightarrow> a \<le> c"
    by (simp add: less_eq_status_def)
  show "a \<le> b \<Longrightarrow> b \<le> a \<Longrightarrow> a = b"
    by (cases a; cases b) (simp_all add: less_eq_status_def)
  show "a \<le> b \<or> b \<le> a"
    by (auto simp: less_eq_status_def)
qed

end

record game =
  gid :: nat
  room_code :: room_code
  player1 :: uid
  player2 :: "uid option"
  current_turn :: "uid option"
  winner :: "uid option"
  status :: status
  board :: string

record game_move =
  gm_game :: nat
  gm_player :: uid
  gm_position :: int

record user =
  user_id :: uid
  email :: string
  verification_status :: string
  otp :: "string option"
  otp_validity :: bool

record db =
  games :: "game list"
  users :: "user list"
  moves :: "game_move list"
  game_seq :: nat

text \<open>
  The custom user model deletes the \<open>username\<close> field (\<open>username=None\<close>),
  so the attribute \<open>user.username\<close> that the consumer puts into every
  message is the class attribute \<open>None\<close>, whoever the user is.
\<close>

definition username :: "uid \<Rightarrow> string option" where
  "username u = None"

text \<open>\<open>x.username if x else None\<close> for a nullable foreign key.\<close>

definition name_opt :: "uid option \<Rightarrow> string option" where
  "name_opt x = (case x of None \<Rightarrow> None | Some u \<Rightarrow> username u)"

definition empty_board :: string where
  "empty_board = ''---------''"

abbreviation EMPTY :: char where "EMPTY \<equiv> CHR ''-''"
abbreviation MARK_X :: char where "MARK_X \<equiv> CHR ''X''"
abbreviation MARK_O :: char where "MARK_O \<equiv> CHR ''O''"

text \<open>The eight lines the consumer checks, in the order it lists them.\<close>

definition winning_combinations :: "nat list list" where
  "winning_combinations =
     [[0, 1, 2], [3, 4, 5], [6, 7, 8],
      [0, 3, 6], [1, 4, 7], [2, 5, 8],
      [0, 4, 8], [2, 4, 6]]"

definition line_filled :: "char \<Rightarrow> string \<Rightarrow> nat list \<Rightarrow> bool" where
  "line_filled s b c \<longleftrightarrow> list_all (\<lambda>i. i < length b \<and> b ! i = s) c"

definition has_line :: "char \<Rightarrow> string \<Rightarrow> bool" where
  "has_line s b \<longleftrightarrow> list_ex (line_filled s b) winning_combinations"

definition game_moves :: "db \<Rightarrow> nat \<Rightarrow> game_move list" where
  "game_moves d k = filter (\<lambda>m. gm_game m = k) (moves d)"

section \<open>The invariant of a game row\<close>

text \<open>
  What the handlers keep true of every game: a 9-cell board over
  \<open>-XO\<close>; X moves first, so X has as many marks as O or one more; and per
  status: a pending game has no second player, no turn and an empty board; a
  game in progress has two distinct players, no line, an empty cell and the
  turn of the player who did not move last; a completed game was won by the
  last mover (who still holds \<open>current_turn\<close>: the code never clears it) or
  is a full board without a line, X having moved last.
\<close>

definition marks_ok :: "string \<Rightarrow> bool" where
  "marks_ok b \<longleftrightarrow> length b = 9 \<and> list_all (\<lambda>c. c = EMPTY \<or> c = MARK_X \<or> c = MARK_O) b"

fun status_ok :: "status \<Rightarrow> game \<Rightarrow> bool" where
  "status_ok PENDING g \<longleftrightarrow>
     player2 g = None \<and> current_turn g = None \<and> winner g = None \<and> board g = empty_board"
| "status_ok IN_PROGRESS g \<longleftrightarrow>
     player2 g \<noteq> None \<and> player2 g \<noteq> Some (player1 g) \<and> winner g = None \<and>
     \<not> has_line MARK_X (board g) \<and> \<not> has_line MARK_O (board g) \<and> EMPTY \<in> set (board g) \<and>
     (count_list (board g) MARK_X = count_list (board g) MARK_O \<and>
        current_turn g = Some (player1 g) \<or>
      count_list (board g) MARK_X = Suc (count_list (board g) MARK_O) \<and>
        current_turn g = player2 g)"
| "status_ok COMPLETED g \<longleftrightarrow>
     player2 g \<noteq> None \<and> player2 g \<noteq> Some (player1 g) \<and>
     (case winner g of
        Some w \<Rightarrow>
          current_turn g = Some w \<and>
          (w = player1 g \<and> has_line MARK_X (board g) \<and> \<not> has_line MARK_O (board g) \<and>
             count_list (board g) MARK_X = Suc (count_list (board g) MARK_O) \<or>
           Some w = player2 g \<and> has_line MARK_O (board g) \<and> \<not> has_line MARK_X (board g) \<and>
             count_list (board g) MARK_X = count_list (board g) MARK_O)
      | None \<Rightarrow>
          current_turn g = Some (player1 g) \<and> EMPTY \<notin> set (board g) \<and>
          \<not> has_line MARK_X (board g) \<and> \<not> has_line MARK_O (board g) \<and>
          count_list (board g) MARK_X = Suc (count_list (board g) MARK_O))"

definition wf_game :: "game \<Rightarrow> bool" where
  "wf_game g \<longleftrightarrow> marks_ok (board g) \<and> status_ok (status g) g"

text \<open>
  The invariant of the database: room codes and game ids are keys, ids
  stay below the sequence, every move belongs to a game, every game is
  well formed and its log has one entry per mark on its board
  (spec section 3: cell count equals \<open>moveLog\<close> length).
\<close>

definition wf_db :: "db \<Rightarrow> bool" where
  "wf_db d \<longleftrightarrow>
     distinct (map gid (games d)) \<and> distinct (map room_code (games d)) \<and>
     distinct (map user_id (users d)) \<and>
     list_all (\<lambda>g. gid g < game_seq d) (games d) \<and>
     list_all (\<lambda>m. gm_game m \<in> set (map gid (games d))) (moves d) \<and>
     list_all (\<lambda>g. wf_game g \<and>
        length (game_moves d (gid g)) =
          count_list (board g) MARK_X + count_list (board g) MARK_O) (games d)"

section \<open>Lemmas on boards\<close>

lemma marks_ok_update [board_simps]:
  assumes "marks_ok b" and "s = MARK_X \<or> s = MARK_O"
  shows "marks_ok (b[i := s])"
proof -
  have "set (b[i := s]) \<subseteq> insert s (set b)" by (rule set_update_subset_insert)
  with assms show ?thesis by (auto simp: marks_ok_def list_all_iff)
qed

lemma count_marks_total:
  "list_all (\<lambda>c. c = EMPTY \<or> c = MARK_X \<or> c = MARK_O) b \<Longrightarrow>
   count_list b EMPTY + count_list b MARK_X + count_list b MARK_O = length b"
  by (induction b) auto

lemma full_board_counts [board_simps]:
  "marks_ok b \<Longrightarrow> EMPTY \<notin> set b \<Longrightarrow> count_list b MARK_X + count_list b MARK_O = 9"
  using count_marks_total [of b] by (simp add: marks_ok_def)

text \<open>A line of \<open>s\<close> after writing \<open>t\<close> at \<open>i\<close> was there before, unless the write made it.\<close>

lemma line_filled_update:
  assumes filled: "line_filled s (b[i := t]) c" and new: "s \<noteq> t \<or> i \<notin> set c"
  shows "line_filled s b c"
  unfolding line_filled_def list_all_iff
proof
  fix j
  assume j: "j \<in> set c"
  with filled have "j < length b" "b[i := t] ! j = s"
    by (auto simp: line_filled_def list_all_iff)
  with new j show "j < length b \<and> b ! j = s"
    by (cases "i = j") auto
qed

lemma has_line_update_other [board_simps]:
  "has_line s (b[i := t]) \<Longrightarrow> s \<noteq> t \<Longrightarrow> has_line s b"
  by (auto simp: has_line_def list_ex_iff dest: line_filled_update)

lemma place_count_same [board_simps]:
  "i < length b \<Longrightarrow> b ! i = EMPTY \<Longrightarrow> s \<noteq> EMPTY \<Longrightarrow>
   count_list (b[i := s]) s = Suc (count_list b s)"
  by (simp add: count_list_update)

lemma place_count_other [board_simps]:
  "i < length b \<Longrightarrow> b ! i = EMPTY \<Longrightarrow> t \<noteq> s \<Longrightarrow> t \<noteq> EMPTY \<Longrightarrow>
   count_list (b[i := s]) t = count_list b t"
  by (simp add: count_list_update)

lemma empty_board_no_line [board_simps]:
  "s \<noteq> EMPTY \<Longrightarrow> \<not> has_line s empty_board"
  by (simp add: has_line_def empty_board_def winning_combinations_def line_filled_def)

lemma empty_board_counts [board_simps]:
  "marks_ok empty_board" "count_list empty_board MARK_X = 0" "count_list empty_board MARK_O = 0"
  "EMPTY \<in> set empty_board"
  by (simp_all add: empty_board_def marks_ok_def)

lemma in_progress_mover:
  assumes "wf_game g" and "status g = IN_PROGRESS" and "current_turn g = Some u"
  shows "u = player1 g \<and> count_list (board g) MARK_X = count_list (board g) MARK_O \<or>
         u \<noteq> player1 g \<and> Some u = player2 g \<and>
           count_list (board g) MARK_X = Suc (count_list (board g) MARK_O)"
  using assms by (auto simp: wf_game_def)

end
