(* ===== verification/Tasks.thy ===== *)
theory Tasks
  imports Models
begin

text \<open>
  The Celery tasks of \<open>src/authenticate/task.py\<close>: the two OTP mails that
  store the code on the \<open>User\<close> row, the scheduled mail that does not, and
  \<open>invalidateOTP\<close>, which clears the OTP flag and disables the periodic
  task that called it.  The state is the database, the \<open>PeriodicTask\<close>
  table of \<open>django_celery_beat\<close> and the mails handed to \<open>send_mail\<close>;
  \<open>random.randint(100000, 999999)\<close> is an input, and a task that raises
  returns the exception with the state it had reached (Celery does not roll
  it back).  Mail delivery is I/O and always succeeds here.
\<close>

section \<open>State\<close>

record periodic_task =
  pt_name :: string
  pt_enabled :: bool

record mail =
  m_to :: string
  m_subject :: string
  m_template :: string
  m_otp :: nat

record task_state =
  t_db :: db
  t_beat :: "periodic_task list"
  t_outbox :: "mail list"

section \<open>The OTP string\<close>

text \<open>\<open>str(otp)\<close>: the decimal digits, as the \<open>CharField\<close> stores the integer.\<close>

definition digit_char :: "nat \<Rightarrow> char" where
  "digit_char k = ''0123456789'' ! k"

fun digits_of :: "nat \<Rightarrow> string" where
  "digits_of n = (if n < 10 then [digit_char n] else digits_of (n div 10) @ [digit_char (n mod 10)])"

declare digits_of.simps [simp del]

text \<open>Reading a digit string back, as \<open>int(user.otp)\<close> would.\<close>

definition digit_val :: "char \<Rightarrow> nat" where
  "digit_val c = of_char c - 48"

definition read_digits :: "string \<Rightarrow> nat" where
  "read_digits s = foldl (\<lambda>acc c. 10 * acc + digit_val c) 0 s"

definition otp_range :: "nat \<Rightarrow> bool" where
  "otp_range n \<longleftrightarrow> 100000 \<le> n \<and> n \<le> 999999"

section \<open>The tasks\<close>

definition save_user :: "user \<Rightarrow> db \<Rightarrow> db" where
  "save_user x d = d\<lparr>users := db_save user_id x (users d)\<rparr>"

definition get_user_by_email :: "string \<Rightarrow> db \<Rightarrow> py_error + user" where
  "get_user_by_email addr d = db_get (\<lambda>x. email x = addr) (users d)"

definition send_otp_mail :: "string \<Rightarrow> string \<Rightarrow> string \<Rightarrow> nat \<Rightarrow> task_state \<Rightarrow> task_state" where
  "send_otp_mail subject template addr n s =
     s\<lparr>t_outbox := t_outbox s @ [\<lparr>m_to = addr, m_subject = subject, m_template = template, m_otp = n\<rparr>]\<rparr>"

text \<open>\<open>sendEmailTask\<close> and \<open>sendForgotEmailTask\<close>: mail first, then
  \<open>User.objects.get(email=email)\<close>, then \<open>user_obj.otp = otp; save()\<close>.\<close>

definition store_otp_task :: "string \<Rightarrow> string \<Rightarrow> string \<Rightarrow> nat \<Rightarrow> task_state \<Rightarrow> task_state \<times> (py_error + string)" where
  "store_otp_task subject template addr n s =
     (let s1 = send_otp_mail subject template addr n s in
      case get_user_by_email addr (t_db s1) of
        Inl e \<Rightarrow> (s1, Inl e)
      | Inr x \<Rightarrow> (s1\<lparr>t_db := save_user (x\<lparr>otp := Some (digits_of n)\<rparr>) (t_db s1)\<rparr>, Inr ''DONE''))"

definition sendEmailTask :: "string \<Rightarrow> nat \<Rightarrow> task_state \<Rightarrow> task_state \<times> (py_error + string)" where
  "sendEmailTask = store_otp_task ''Tic-Tac-Toe Account verification.'' ''registrationEmail.html''"

definition sendForgotEmailTask :: "string \<Rightarrow> nat \<Rightarrow> task_state \<Rightarrow> task_state \<times> (py_error + string)" where
  "sendForgotEmailTask = store_otp_task ''Tic-Tac-Toe Reset Password.'' ''forgotPasswordEmail.html''"

definition sendScheduleEmailTask :: "string \<Rightarrow> nat \<Rightarrow> task_state \<Rightarrow> task_state \<times> (py_error + string)" where
  "sendScheduleEmailTask addr n s =
     (send_otp_mail ''Tic-Tac-Toe Account verification OTP.'' ''forgotPasswordEmail.html'' addr n s, Inr ''DONE'')"

text \<open>\<open>invalidateOTP\<close>: the user row is saved before the periodic task is
  looked up, so a missing task leaves the flag cleared and the task failed.\<close>

definition invalidateOTP :: "string \<Rightarrow> string \<Rightarrow> task_state \<Rightarrow> task_state \<times> (py_error + string)" where
  "invalidateOTP addr name s =
     (case get_user_by_email addr (t_db s) of
        Inl e \<Rightarrow> (s, Inl e)
      | Inr x \<Rightarrow>
          (let s1 = s\<lparr>t_db := save_user (x\<lparr>otp_validity := False\<rparr>) (t_db s)\<rparr> in
           case db_get (\<lambda>p. pt_name p = name) (t_beat s1) of
             Inl e \<Rightarrow> (s1, Inl e)
           | Inr p \<Rightarrow> (s1\<lparr>t_beat := db_save pt_name (p\<lparr>pt_enabled := False\<rparr>) (t_beat s1)\<rparr>,
                       Inr ''SET otp Invalid'')))"

text \<open>A state with one registered user and no periodic task, for the witnesses.\<close>

definition demo_tasks :: task_state where
  "demo_tasks =
     \<lparr>t_db = \<lparr>games = [], users = [\<lparr>user_id = 1, email = ''p1@example.com'',
        verification_status = ''pending'', otp = None, otp_validity = True\<rparr>], moves = [], game_seq = 1\<rparr>,
      t_beat = [], t_outbox = []\<rparr>"

section \<open>Lemmas\<close>

lemma digit_val_char [simp]: "k < 10 \<Longrightarrow> digit_val (digit_char k) = k"
  by (auto simp: digit_val_def digit_char_def less_Suc_eq numeral_eq_Suc)

lemma read_digits_snoc: "read_digits (xs @ [c]) = 10 * read_digits xs + digit_val c"
  by (simp add: read_digits_def)

lemma read_digits_of: "read_digits (digits_of n) = n"
proof (induction n rule: digits_of.induct)
  case (1 n)
  show ?case
  proof (cases "n < 10")
    case True
    then show ?thesis by (simp add: read_digits_def digits_of.simps)
  next
    case False
    with 1 show ?thesis by (simp add: read_digits_snoc digits_of.simps [of n])
  qed
qed

lemma digits_of_length:
  "10 ^ k \<le> n \<Longrightarrow> n < 10 ^ Suc k \<Longrightarrow> length (digits_of n) = Suc k"
proof (induction k arbitrary: n)
  case 0
  then show ?case by (simp add: digits_of.simps)
next
  case (Suc k)
  have p: "(1::nat) \<le> 10 ^ k" by simp
  from Suc.prems(1) have "10 * 10 ^ k \<le> n" by simp
  with p have "10 \<le> n" by linarith
  moreover have "10 ^ k \<le> n div 10"
    using Suc.prems(1) by (simp add: less_eq_div_iff_mult_less_eq mult.commute)
  moreover have "n div 10 < 10 ^ Suc k"
    using Suc.prems(2) by (simp add: div_less_iff_less_mult mult.commute)
  ultimately show ?case using Suc.IH by (simp add: digits_of.simps [of n])
qed

lemma digits_of_set: "set (digits_of n) \<subseteq> set ''0123456789''"
proof (induction n rule: digits_of.induct)
  case (1 n)
  have d: "digit_char k \<in> set ''0123456789''" if "k < 10" for k
    using that nth_mem [of k "''0123456789''"] by (simp add: digit_char_def)
  show ?case using 1 d by (auto simp: digits_of.simps [of n])
qed

lemma filter_db_save:
  assumes dist: "distinct (map key xs)" and f: "filter P xs = [x]" and k: "key x' = key x" and p: "P x'"
  shows "filter P (db_save key x' xs) = [x']"
proof -
  have "x \<in> set (filter P xs)" using f by simp
  then have x: "x \<in> set xs" and px: "P x" by simp_all
  have other: "y \<in> set xs \<Longrightarrow> y \<noteq> x \<Longrightarrow> key y \<noteq> key x \<and> \<not> P y" for y
  proof
    assume y: "y \<in> set xs" and ne: "y \<noteq> x"
    with x dist show "key y \<noteq> key x" by (blast dest: distinct_key_eq)
    show "\<not> P y"
    proof
      assume "P y"
      with y have "y \<in> set (filter P xs)" by simp
      with f ne show False by simp
    qed
  qed
  from dist f x other show ?thesis
    unfolding db_save_def
  proof (induction xs)
    case Nil
    then show ?case by simp
  next
    case (Cons y ys)
    show ?case
    proof (cases "y = x")
      case True
      with Cons.prems have "x \<notin> set ys" by (auto simp: image_iff)
      with Cons.prems(2) True px have "filter P ys = []" by simp
      moreover from Cons.prems True have "\<forall>z \<in> set ys. key z \<noteq> key x"
        by (auto simp: image_iff)
      ultimately show ?thesis using True k p
        by (simp add: filter_empty_conv)
    next
      case False
      from Cons.prems(4) [of y] False have ky: "key y \<noteq> key x" and py: "\<not> P y" by auto
      have "filter P (map (\<lambda>y. if key y = key x' then x' else y) ys) = [x']"
      proof (rule Cons.IH)
        show "distinct (map key ys)" using Cons.prems(1) by simp
        show "filter P ys = [x]" using Cons.prems(2) py by simp
        show "x \<in> set ys" using Cons.prems(3) False by simp
        show "\<And>z. z \<in> set ys \<Longrightarrow> z \<noteq> x \<Longrightarrow> key z \<noteq> key x \<and> \<not> P z"
          using Cons.prems(4) by simp
      qed
      with ky py k show ?thesis by simp
    qed
  qed
qed

lemma get_user_by_email_save:
  assumes "distinct (map user_id (users d))" and "get_user_by_email addr d = Inr x"
    and "user_id x' = user_id x" and "email x' = addr"
  shows "get_user_by_email addr (save_user x' d) = Inr x'"
proof -
  from assms(2) have "filter (\<lambda>y. email y = addr) (users d) = [x]"
    by (auto simp: get_user_by_email_def db_get_def split: list.splits)
  then have "filter (\<lambda>y. email y = addr) (db_save user_id x' (users d)) = [x']"
    using assms(1,3,4) by (intro filter_db_save) simp_all
  then show ?thesis by (simp add: get_user_by_email_def save_user_def db_get_def)
qed

lemma get_user_by_email_addr: "get_user_by_email addr d = Inr x \<Longrightarrow> email x = addr"
  unfolding get_user_by_email_def by (drule db_get_Inr) simp

section \<open>Properties\<close>

text \<open>
  C38.  Every code \<open>random.randint(100000, 999999)\<close> can draw is stored as a
  string of exactly six decimal digits, so it fits the \<open>CharField(max_length=6)\<close>
  of \<open>User.otp\<close>, and reading the string back gives the number.
\<close>

theorem otp_fits_field:
  "otp_range n \<Longrightarrow> length (digits_of n) = 6 \<and> set (digits_of n) \<subseteq> set ''0123456789'' \<and>
   read_digits (digits_of n) = n"
  using digits_of_length [of 5 n] digits_of_set [of n] read_digits_of [of n]
  by (simp add: otp_range_def)

theorem otp_fits_field_witness:
  "otp_range 123456 \<and> digits_of 123456 = ''123456''"
  using otp_fits_field [of 123456] by (simp add: otp_range_def digit_char_def digits_of.simps)

text \<open>
  C37.  \<open>sendEmailTask\<close> for a registered address mails one code to that
  address and stores on that user's row the string whose value is exactly
  the mailed code; the task returns \<open>DONE\<close>.
\<close>

theorem email_task_stores_mailed_otp:
  assumes "distinct (map user_id (users (t_db s)))" and "get_user_by_email addr (t_db s) = Inr x"
  shows "\<exists>s' x'. sendEmailTask addr n s = (s', Inr ''DONE'') \<and>
     t_outbox s' = t_outbox s @ [\<lparr>m_to = addr, m_subject = ''Tic-Tac-Toe Account verification.'',
                                 m_template = ''registrationEmail.html'', m_otp = n\<rparr>] \<and>
     get_user_by_email addr (t_db s') = Inr x' \<and> user_id x' = user_id x \<and>
     map_option read_digits (otp x') = Some n"
proof -
  have "get_user_by_email addr (save_user (x\<lparr>otp := Some (digits_of n)\<rparr>) (t_db s)) =
        Inr (x\<lparr>otp := Some (digits_of n)\<rparr>)"
    using assms get_user_by_email_addr [OF assms(2)] by (intro get_user_by_email_save) simp_all
  moreover have "sendEmailTask addr n s =
     (s\<lparr>t_outbox := t_outbox s @ [\<lparr>m_to = addr, m_subject = ''Tic-Tac-Toe Account verification.'',
                                 m_template = ''registrationEmail.html'', m_otp = n\<rparr>],
        t_db := save_user (x\<lparr>otp := Some (digits_of n)\<rparr>) (t_db s)\<rparr>, Inr ''DONE'')"
    using assms(2) by (simp add: sendEmailTask_def store_otp_task_def send_otp_mail_def Let_def)
  ultimately show ?thesis using read_digits_of [of n] by auto
qed

theorem email_task_stores_mailed_otp_witness:
  "\<exists>s' x'. sendEmailTask ''p1@example.com'' 123456 demo_tasks = (s', Inr ''DONE'') \<and>
     get_user_by_email ''p1@example.com'' (t_db s') = Inr x' \<and> user_id x' = 1 \<and>
     map_option read_digits (otp x') = Some 123456"
proof -
  have "distinct (map user_id (users (t_db demo_tasks)))" by (simp add: demo_tasks_def)
  moreover have "get_user_by_email ''p1@example.com'' (t_db demo_tasks) = Inr (hd (users (t_db demo_tasks)))"
    by (simp add: demo_tasks_def get_user_by_email_def db_get_def)
  ultimately show ?thesis
    using email_task_stores_mailed_otp [of demo_tasks "''p1@example.com''" _ 123456] by (auto simp: demo_tasks_def)
qed

text \<open>
  For an address with no account (or with two) \<open>sendEmailTask\<close> has
  already mailed a code when \<open>User.objects.get\<close> raises: the code is
  stored nowhere and the task fails with the lookup's exception.
\<close>

theorem email_task_unknown_address:
  assumes "get_user_by_email addr (t_db s) = Inl e"
  shows "sendEmailTask addr n s =
     (s\<lparr>t_outbox := t_outbox s @ [\<lparr>m_to = addr, m_subject = ''Tic-Tac-Toe Account verification.'',
                                 m_template = ''registrationEmail.html'', m_otp = n\<rparr>]\<rparr>, Inl e)"
  using assms by (simp add: sendEmailTask_def store_otp_task_def send_otp_mail_def)

theorem email_task_unknown_address_witness:
  "snd (sendEmailTask ''nobody@example.com'' 123456 demo_tasks) = Inl DoesNotExist \<and>
   length (t_outbox (fst (sendEmailTask ''nobody@example.com'' 123456 demo_tasks))) = 1"
proof -
  have "get_user_by_email ''nobody@example.com'' (t_db demo_tasks) = Inl DoesNotExist"
    by (simp add: demo_tasks_def get_user_by_email_def db_get_def)
  from email_task_unknown_address [OF this, of 123456] show ?thesis by (simp add: demo_tasks_def)
qed

text \<open>
  C39.  \<open>invalidateOTP\<close> saves the cleared \<open>otp_validity\<close> flag before it
  looks up its periodic task: when no task has that name the flag stays
  cleared and the task fails with \<open>DoesNotExist\<close>, disabling nothing.
\<close>

theorem invalidate_otp_partial:
  assumes "distinct (map user_id (users (t_db s)))" and "get_user_by_email addr (t_db s) = Inr x"
    and "\<not> list_ex (\<lambda>p. pt_name p = name) (t_beat s)"
  shows "\<exists>s' x'. invalidateOTP addr name s = (s', Inl DoesNotExist) \<and>
     get_user_by_email addr (t_db s') = Inr x' \<and> user_id x' = user_id x \<and> \<not> otp_validity x' \<and>
     t_beat s' = t_beat s"
proof -
  have "get_user_by_email addr (save_user (x\<lparr>otp_validity := False\<rparr>) (t_db s)) = Inr (x\<lparr>otp_validity := False\<rparr>)"
    using assms(1,2) get_user_by_email_addr [OF assms(2)] by (intro get_user_by_email_save) simp_all
  moreover have "db_get (\<lambda>p. pt_name p = name) (t_beat s) = Inl DoesNotExist"
    using assms(3) by (rule db_get_absent)
  ultimately show ?thesis using assms(2) by (simp add: invalidateOTP_def Let_def)
qed

theorem invalidate_otp_partial_witness:
  "\<exists>s' x'. invalidateOTP ''p1@example.com'' ''otp-p1@example.com'' demo_tasks = (s', Inl DoesNotExist) \<and>
     get_user_by_email ''p1@example.com'' (t_db s') = Inr x' \<and> \<not> otp_validity x'"
proof -
  have "distinct (map user_id (users (t_db demo_tasks)))"
    "\<not> list_ex (\<lambda>p. pt_name p = ''otp-p1@example.com'') (t_beat demo_tasks)"
    by (simp_all add: demo_tasks_def)
  moreover have "get_user_by_email ''p1@example.com'' (t_db demo_tasks) = Inr (hd (users (t_db demo_tasks)))"
    by (simp add: demo_tasks_def get_user_by_email_def db_get_def)
  ultimately show ?thesis using invalidate_otp_partial [of demo_tasks "''p1@example.com''"] by blast
qed

end
