(* ===== verification/Validator.thy ===== *)
theory Validator
  imports Models
begin

text \<open>
  The move validator: the decision part of \<open>TicTacToeConsumer.make_move\<close>
  (\<open>src/game/consumers.py\<close>), separated from its database writes.
  \<open>move_rejected\<close> is the guard of lines 141--145, evaluated as Python
  evaluates it (short-circuit \<open>or\<close>, a chained comparison that raises
  \<open>TypeError\<close> on a non-number, string indexing); \<open>find_winning_combo\<close> is
  the \<open>for combo in winning_combinations\<close> loop with its generator
  \<open>all(...)\<close>; \<open>decide_move\<close> computes the game row that the handler saves
  and the message it returns, on each of its three exits.  The outbound
  messages of the consumer are the datatype \<open>msg\<close>.
  The lemmas show that the guard accepts exactly the legal moves, that the
  loop equals the reference \<open>find\<close> over the eight lines, and how a legal move
  keeps a game well formed.
\<close>

section \<open>Messages\<close>

text \<open>
  The JSON objects the consumer sends, tagged by their \<open>action\<close>
  (\<open>game_state\<close>, \<open>player_joined\<close>, \<open>move_made\<close>, \<open>game_over\<close>) and the
  bare \<open>{'error': ...}\<close> object of \<open>receive\<close>.  Player names are
  \<open>user.username\<close>, hence \<open>string option\<close>.
\<close>

datatype msg =
    GameStateMsg (gs_board: string) (gs_status: status) (gs_turn: "string option")
      (gs_player1: "string option") (gs_player2: "string option") (gs_winner: "string option")
  | PlayerJoined "string option" status "string option" string
  | MoveMade pyval char "string option" string
  | GameOverWin "string option" string "nat list"
  | GameOverDraw string
  | ErrorMsg string

section \<open>The guard\<close>

definition move_rejected :: "game \<Rightarrow> uid \<Rightarrow> pyval \<Rightarrow> py_error + bool" where
  "move_rejected g u position =
     (if status g \<noteq> IN_PROGRESS then Inr True
      else if current_turn g \<noteq> Some u then Inr True
      else
        (case py_le_num (PyInt 0) position of
           Inl e \<Rightarrow> Inl e
         | Inr False \<Rightarrow> Inr True
         | Inr True \<Rightarrow>
             (case py_le_num position (PyInt 8) of
                Inl e \<Rightarrow> Inl e
              | Inr False \<Rightarrow> Inr True
              | Inr True \<Rightarrow>
                  (case py_str_index (board g) position of
                     Inl e \<Rightarrow> Inl e
                   | Inr c \<Rightarrow> Inr (c \<noteq> EMPTY)))))"

section \<open>Win detection\<close>

text \<open>\<open>all(board_list[i] == symbol for i in combo)\<close>: stops at the first miss.\<close>

fun combo_all :: "char \<Rightarrow> string \<Rightarrow> nat list \<Rightarrow> py_error + bool" where
  "combo_all s b [] = Inr True"
| "combo_all s b (i # is) =
     (if i < length b then (if b ! i = s then combo_all s b is else Inr False)
      else Inl IndexError)"

fun find_winning_combo :: "char \<Rightarrow> string \<Rightarrow> nat list list \<Rightarrow> py_error + nat list option" where
  "find_winning_combo s b [] = Inr None"
| "find_winning_combo s b (c # cs) =
     (case combo_all s b c of
        Inl e \<Rightarrow> Inl e
      | Inr True \<Rightarrow> Inr (Some c)
      | Inr False \<Rightarrow> find_winning_combo s b cs)"

section \<open>The decision\<close>

text \<open>\<open>symbol = 'X' if user == game.player1 else 'O'\<close>.\<close>

definition mark_of :: "game \<Rightarrow> uid \<Rightarrow> char" where
  "mark_of g u = (if u = player1 g then MARK_X else MARK_O)"

text \<open>
  Lines 148--151 and 160--209 for a move that passed the guard at index
  \<open>i\<close>: the row to save and the message to return.  On the last exit the
  message reads \<open>game.current_turn.username\<close>, which raises
  \<open>AttributeError\<close> (caught: no message) when the next player is absent;
  the row has been saved by then.  An exception inside the loop leaves the
  row unsaved.
\<close>

definition decide_move :: "game \<Rightarrow> uid \<Rightarrow> pyval \<Rightarrow> nat \<Rightarrow> py_error + game \<times> msg option" where
  "decide_move g u position i =
     (let symbol = mark_of g u;
          board_list = (board g)[i := symbol];
          g1 = g\<lparr>board := board_list\<rparr>
      in case find_winning_combo symbol board_list winning_combinations of
           Inl e \<Rightarrow> Inl e
         | Inr (Some combo) \<Rightarrow>
             (let g2 = g1\<lparr>status := COMPLETED, winner := Some u\<rparr>
              in Inr (g2, Some (GameOverWin (username u) (board g2) combo)))
         | Inr None \<Rightarrow>
             (if EMPTY \<notin> set (board g1) then
                (let g2 = g1\<lparr>status := COMPLETED\<rparr>
                 in Inr (g2, Some (GameOverDraw (board g2))))
              else
                (let nt = (if u = player1 g then player2 g else Some (player1 g));
                     g2 = g1\<lparr>current_turn := nt\<rparr>
                 in Inr (g2, map_option (\<lambda>t. MoveMade position symbol (username t) (board g2)) nt))))"

section \<open>Example games\<close>

text \<open>Two rows in progress used by the witnesses below: player1 to move on each.\<close>

definition demo_game :: game where
  "demo_game = \<lparr>gid = 1, room_code = ''AB12CD'', player1 = 1, player2 = Some 2,
     current_turn = Some 1, winner = None, status = IN_PROGRESS, board = ''-X-OX-O--''\<rparr>"

definition demo_full :: game where
  "demo_full = \<lparr>gid = 1, room_code = ''AB12CD'', player1 = 1, player2 = Some 2,
     current_turn = Some 1, winner = None, status = IN_PROGRESS, board = ''XOXXOOOX-''\<rparr>"

section \<open>Lemmas\<close>

lemma combo_all_ref:
  "list_all (\<lambda>i. i < length b) c \<Longrightarrow> combo_all s b c = Inr (line_filled s b c)"
  by (induction c) (auto simp: line_filled_def)

lemma find_winning_combo_ref:
  "list_all (list_all (\<lambda>i. i < length b)) cs \<Longrightarrow>
   find_winning_combo s b cs = Inr (find (line_filled s b) cs)"
  by (induction cs) (auto simp: combo_all_ref)

lemma has_line_find:
  "has_line s b \<longleftrightarrow> find (line_filled s b) winning_combinations \<noteq> None"
  by (auto simp: has_line_def find_None_iff list_ex_iff)

lemma move_rejected_legal:
  "move_rejected g u position = Inr False \<Longrightarrow>
   status g = IN_PROGRESS \<and> current_turn g = Some u \<and>
   (\<exists>i. py_int_of position = Some i \<and> 0 \<le> i \<and> i \<le> 8 \<and>
        nat i < length (board g) \<and> board g ! nat i = EMPTY)"
  by (cases position)
     (auto simp: move_rejected_def py_le_num_def py_str_index_def Let_def split: if_splits bool.splits)

lemma find_winning_combo_9_Inr:
  "length b = 9 \<Longrightarrow>
   find_winning_combo s b winning_combinations = Inr (find (line_filled s b) winning_combinations)"
  by (rule find_winning_combo_ref) (simp add: winning_combinations_def)

lemma decide_move_eq:
  assumes "length (board g) = 9"
  shows "decide_move g u pos i =
    (let s = mark_of g u; b' = (board g)[i := s] in
     case find (line_filled s b') winning_combinations of
       Some c \<Rightarrow> Inr (g\<lparr>board := b', status := COMPLETED, winner := Some u\<rparr>,
                      Some (GameOverWin (username u) b' c))
     | None \<Rightarrow>
         if EMPTY \<notin> set b' then Inr (g\<lparr>board := b', status := COMPLETED\<rparr>, Some (GameOverDraw b'))
         else (let nt = (if u = player1 g then player2 g else Some (player1 g))
               in Inr (g\<lparr>board := b', current_turn := nt\<rparr>,
                       map_option (\<lambda>t. MoveMade pos s (username t) b') nt)))"
  using assms by (simp add: decide_move_def find_winning_combo_9_Inr Let_def split: option.splits)

text \<open>The facts about a legal move that every outcome uses.\<close>

lemma legal_move_facts:
  assumes wf: "wf_game g" and st: "status g = IN_PROGRESS" and turn: "current_turn g = Some u"
    and i: "i < 9" and free: "board g ! i = EMPTY"
  defines "b' \<equiv> (board g)[i := mark_of g u]"
  shows "length (board g) = 9" and "marks_ok b'" and "length b' = 9"
    and "\<not> has_line (if u = player1 g then MARK_O else MARK_X) b'"
    and "u = player1 g \<Longrightarrow> count_list b' MARK_X = Suc (count_list b' MARK_O) \<and> count_list b' MARK_O = count_list (board g) MARK_O"
    and "u \<noteq> player1 g \<Longrightarrow> count_list b' MARK_X = count_list b' MARK_O \<and> count_list b' MARK_X = count_list (board g) MARK_X \<and> Some u = player2 g"
    and "count_list b' MARK_X + count_list b' MARK_O = Suc (count_list (board g) MARK_X + count_list (board g) MARK_O)"
    and "\<exists>p2. player2 g = Some p2 \<and> p2 \<noteq> player1 g"
proof -
  from wf show len: "length (board g) = 9" by (simp add: wf_game_def marks_ok_def)
  from wf have mok: "marks_ok (board g)" by (simp add: wf_game_def)
  then show "marks_ok b'" unfolding b'_def by (rule marks_ok_update) (simp add: mark_of_def)
  from len show "length b' = 9" by (simp add: b'_def)
  from wf st have noX: "\<not> has_line MARK_X (board g)" and noO: "\<not> has_line MARK_O (board g)"
    by (auto simp: wf_game_def)
  show "\<not> has_line (if u = player1 g then MARK_O else MARK_X) b'"
    using noX noO unfolding b'_def by (auto simp: mark_of_def dest: has_line_update_other)
  from in_progress_mover [OF wf st turn] i len free
  show "u = player1 g \<Longrightarrow> count_list b' MARK_X = Suc (count_list b' MARK_O) \<and> count_list b' MARK_O = count_list (board g) MARK_O"
    and "u \<noteq> player1 g \<Longrightarrow> count_list b' MARK_X = count_list b' MARK_O \<and> count_list b' MARK_X = count_list (board g) MARK_X \<and> Some u = player2 g"
    and "count_list b' MARK_X + count_list b' MARK_O = Suc (count_list (board g) MARK_X + count_list (board g) MARK_O)"
    by (auto simp: b'_def mark_of_def place_count_same place_count_other)
  from wf st show "\<exists>p2. player2 g = Some p2 \<and> p2 \<noteq> player1 g"
    by (auto simp: wf_game_def)
qed


lemma decide_move_wf:
  assumes wf: "wf_game g" and st: "status g = IN_PROGRESS" and turn: "current_turn g = Some u"
    and i: "i < 9" and free: "board g ! i = EMPTY"
  shows "\<exists>g' m. decide_move g u pos i = Inr (g', m) \<and> wf_game g' \<and>
           gid g' = gid g \<and> room_code g' = room_code g \<and> player1 g' = player1 g \<and>
           player2 g' = player2 g \<and> board g' = (board g)[i := mark_of g u] \<and>
           IN_PROGRESS \<le> status g'"
proof -
  define s where "s = mark_of g u"
  define b' where "b' = (board g)[i := s]"
  note F = legal_move_facts [OF wf st turn i free, folded s_def, folded b'_def]
  have eq: "decide_move g u pos i =
    (case find (line_filled s b') winning_combinations of
       Some c \<Rightarrow> Inr (g\<lparr>board := b', status := COMPLETED, winner := Some u\<rparr>,
                      Some (GameOverWin (username u) b' c))
     | None \<Rightarrow>
         if EMPTY \<notin> set b' then Inr (g\<lparr>board := b', status := COMPLETED\<rparr>, Some (GameOverDraw b'))
         else Inr (g\<lparr>board := b', current_turn := (if u = player1 g then player2 g else Some (player1 g))\<rparr>,
                   map_option (\<lambda>t. MoveMade pos s (username t) b')
                     (if u = player1 g then player2 g else Some (player1 g))))"
    using F(1) unfolding s_def b'_def by (simp only: decide_move_eq Let_def)
  have other: "\<not> has_line (if u = player1 g then MARK_O else MARK_X) b'" by (rule F(4))
  from wf st have wn: "winner g = None" by (simp add: wf_game_def)
  show ?thesis
  proof (cases "find (line_filled s b') winning_combinations")
    case (Some c)
    then have "has_line s b'" by (auto simp: has_line_find)
    with F other turn have "wf_game (g\<lparr>board := b', status := COMPLETED, winner := Some u\<rparr>)"
      by (auto simp: wf_game_def s_def mark_of_def split: if_splits)
    with Some eq show ?thesis by (simp add: b'_def s_def st less_eq_status_def)
  next
    case None
    then have noline: "\<not> has_line s b'" by (simp add: has_line_find)
    show ?thesis
    proof (cases "EMPTY \<in> set b'")
      case False
      with F(2) have nine: "count_list b' MARK_X + count_list b' MARK_O = 9"
        by (rule full_board_counts)
      have "u = player1 g"
      proof (rule ccontr)
        assume "u \<noteq> player1 g"
        with F(6) have "count_list b' MARK_X = count_list b' MARK_O" by blast
        with nine show False by presburger
      qed
      with F False noline other turn wn
      have "wf_game (g\<lparr>board := b', status := COMPLETED\<rparr>)"
        by (auto simp: wf_game_def s_def mark_of_def split: if_splits)
      with None False eq show ?thesis by (simp add: b'_def s_def st less_eq_status_def)
    next
      case True
      with F noline other turn st wf
      have "wf_game (g\<lparr>board := b', current_turn := (if u = player1 g then player2 g else Some (player1 g))\<rparr>)"
        by (auto simp: wf_game_def s_def mark_of_def split: if_splits)
      with None True eq show ?thesis by (simp add: b'_def s_def st less_eq_status_def)
    qed
  qed
qed


lemma demo_game_wf: "wf_game demo_game"
  by (simp add: demo_game_def wf_game_def marks_ok_def has_line_def winning_combinations_def line_filled_def)

lemma demo_full_wf: "wf_game demo_full"
  by (simp add: demo_full_def wf_game_def marks_ok_def has_line_def winning_combinations_def line_filled_def)

lemma decide_move_next_turn:
  assumes wf: "wf_game g" and st: "status g = IN_PROGRESS" and turn: "current_turn g = Some u"
    and i: "i < 9" and dm: "decide_move g u pos i = Inr (g', m)"
  shows "status g' = COMPLETED \<or> current_turn g' \<noteq> Some u"
proof -
  from wf st obtain p2 where p2: "player2 g = Some p2" "p2 \<noteq> player1 g"
    by (auto simp: wf_game_def)
  from wf have "length (board g) = 9" by (simp add: wf_game_def marks_ok_def)
  with dm p2 show ?thesis
    by (auto simp: decide_move_eq Let_def split: option.splits if_splits)
qed

section \<open>Properties\<close>



text \<open>
  C11.  The guard of \<open>make_move\<close> lets a move through exactly when the game
  is in progress, it is the mover's turn, and the position is an integer
  (or a JSON boolean) between 0 and 8 naming an empty cell; every other
  position value is refused or raises.
\<close>

theorem move_rejected_accepts:
  "move_rejected g u position = Inr False \<longleftrightarrow>
   status g = IN_PROGRESS \<and> current_turn g = Some u \<and>
   (\<exists>i. py_int_of position = Some i \<and> 0 \<le> i \<and> i \<le> 8 \<and>
        nat i < length (board g) \<and> board g ! nat i = EMPTY)"
proof
  assume "move_rejected g u position = Inr False"
  then show "status g = IN_PROGRESS \<and> current_turn g = Some u \<and>
   (\<exists>i. py_int_of position = Some i \<and> 0 \<le> i \<and> i \<le> 8 \<and>
        nat i < length (board g) \<and> board g ! nat i = EMPTY)"
    by (rule move_rejected_legal)
next
  assume "status g = IN_PROGRESS \<and> current_turn g = Some u \<and>
   (\<exists>i. py_int_of position = Some i \<and> 0 \<le> i \<and> i \<le> 8 \<and>
        nat i < length (board g) \<and> board g ! nat i = EMPTY)"
  then show "move_rejected g u position = Inr False"
    by (cases position) (auto simp: move_rejected_def py_le_num_def py_str_index_def Let_def)
qed

theorem move_rejected_accepts_witness:
  "move_rejected demo_game 1 (PyInt 7) = Inr False \<and> move_rejected demo_game 1 (PyBool True) \<noteq> Inr False"
proof -
  have "status demo_game = IN_PROGRESS \<and> current_turn demo_game = Some 1 \<and>
    (\<exists>i. py_int_of (PyInt 7) = Some i \<and> 0 \<le> i \<and> i \<le> 8 \<and>
         nat i < length (board demo_game) \<and> board demo_game ! nat i = EMPTY)"
    by (simp add: demo_game_def)
  moreover have "\<not> (status demo_game = IN_PROGRESS \<and> current_turn demo_game = Some 1 \<and>
    (\<exists>i. py_int_of (PyBool True) = Some i \<and> 0 \<le> i \<and> i \<le> 8 \<and>
         nat i < length (board demo_game) \<and> board demo_game ! nat i = EMPTY))"
    by (simp add: demo_game_def)
  ultimately show ?thesis
    using move_rejected_accepts [of demo_game 1 "PyInt 7"] move_rejected_accepts [of demo_game 1 "PyBool True"]
    by blast
qed

text \<open>
  C15.  When a legal move on a well-formed game in progress ends it with a
  win, the reported \<open>winning_combo\<close> is one of the eight lines, it passes
  through the cell just played, the mover's mark fills it on the reported
  board, and the saved row is completed with the mover as winner.
\<close>

theorem decide_move_win_line:
  assumes wf: "wf_game g" and st: "status g = IN_PROGRESS" and turn: "current_turn g = Some u"
    and i: "i < 9" and free: "board g ! i = EMPTY"
    and dm: "decide_move g u pos i = Inr (g', Some (GameOverWin w b c))"
  shows "c \<in> set winning_combinations \<and> i \<in> set c \<and> line_filled (mark_of g u) b c \<and>
         b = board g' \<and> status g' = COMPLETED \<and> winner g' = Some u"
proof -
  define s where "s = mark_of g u"
  define b' where "b' = (board g)[i := s]"
  from wf have len: "length (board g) = 9" by (simp add: wf_game_def marks_ok_def)
  from wf st have nol: "\<not> has_line s (board g)"
    by (auto simp: wf_game_def s_def mark_of_def)
  obtain c0 where found: "find (line_filled s b') winning_combinations = Some c0"
    using dm len by (cases "find (line_filled s b') winning_combinations")
      (auto simp: decide_move_eq s_def b'_def Let_def split: if_splits)
  with dm len have res: "c = c0" "b = b'" "g' = g\<lparr>board := b', status := COMPLETED, winner := Some u\<rparr>"
    by (auto simp: decide_move_eq s_def b'_def Let_def)
  from found have c0: "c0 \<in> set winning_combinations" "line_filled s b' c0"
    by (auto simp: find_Some_iff)
  have "i \<in> set c0"
  proof (rule ccontr)
    assume "i \<notin> set c0"
    with c0(2) have "line_filled s (board g) c0"
      unfolding b'_def by (blast intro: line_filled_update)
    with c0(1) nol show False by (auto simp: has_line_def list_ex_iff)
  qed
  with res c0 show ?thesis by (simp add: s_def)
qed

theorem decide_move_win_line_witness:
  "decide_move demo_game 1 (PyInt 7) 7 =
     Inr (demo_game\<lparr>board := ''-X-OX-OX-'', status := COMPLETED, winner := Some 1\<rparr>,
          Some (GameOverWin None ''-X-OX-OX-'' [1, 4, 7])) \<and>
   7 \<in> set [1, 4, 7::nat]"
proof -
  have dm: "decide_move demo_game 1 (PyInt 7) 7 =
     Inr (demo_game\<lparr>board := ''-X-OX-OX-'', status := COMPLETED, winner := Some 1\<rparr>,
          Some (GameOverWin None ''-X-OX-OX-'' [1, 4, 7]))"
    by code_simp
  have "status demo_game = IN_PROGRESS" "current_turn demo_game = Some 1" "board demo_game ! 7 = EMPTY"
    by (simp_all add: demo_game_def)
  from decide_move_win_line [OF demo_game_wf this(1,2) _ this(3) dm] dm show ?thesis by simp
qed

text \<open>
  C16.  A legal move ends the game in a draw only on a board with no empty
  cell and no line of either mark, X (player1) having made the last move;
  the saved row is completed without a winner.
\<close>

theorem decide_move_draw:
  assumes wf: "wf_game g" and st: "status g = IN_PROGRESS" and turn: "current_turn g = Some u"
    and i: "i < 9" and free: "board g ! i = EMPTY"
    and dm: "decide_move g u pos i = Inr (g', Some (GameOverDraw b))"
  shows "EMPTY \<notin> set b \<and> \<not> has_line MARK_X b \<and> \<not> has_line MARK_O b \<and> u = player1 g \<and>
         b = board g' \<and> status g' = COMPLETED \<and> winner g' = None"
proof -
  from wf have len: "length (board g) = 9" by (simp add: wf_game_def marks_ok_def)
  from decide_move_wf [OF wf st turn i free, of pos]
  obtain g2 m where dm2: "decide_move g u pos i = Inr (g2, m)" and wf2: "wf_game g2" by blast
  from dm dm2 have "g2 = g'" by simp
  from dm len wf st have shape: "g' = g\<lparr>board := b, status := COMPLETED\<rparr>"
    "b = (board g)[i := mark_of g u]"
    by (auto simp: decide_move_eq Let_def split: option.splits if_splits)
  with wf2 \<open>g2 = g'\<close> have "EMPTY \<notin> set b \<and> \<not> has_line MARK_X b \<and> \<not> has_line MARK_O b"
    using wf st by (auto simp: wf_game_def)
  moreover from wf2 \<open>g2 = g'\<close> shape wf st have "winner g' = None" by (auto simp: wf_game_def)
  moreover have "u = player1 g"
  proof (rule ccontr)
    assume "u \<noteq> player1 g"
    with legal_move_facts(6) [OF wf st turn i free]
    have eq: "count_list b MARK_X = count_list b MARK_O" by (simp add: shape(2))
    from legal_move_facts(2) [OF wf st turn i free] \<open>EMPTY \<notin> set b \<and> _\<close>
    have "count_list b MARK_X + count_list b MARK_O = 9"
      by (simp add: shape(2) full_board_counts)
    with eq show False by arith
  qed
  ultimately show ?thesis using shape by simp
qed

theorem decide_move_draw_witness:
  "decide_move demo_full 1 (PyInt 8) 8 =
     Inr (demo_full\<lparr>board := ''XOXXOOOXX'', status := COMPLETED\<rparr>, Some (GameOverDraw ''XOXXOOOXX'')) \<and>
   EMPTY \<notin> set ''XOXXOOOXX''"
proof -
  have dm: "decide_move demo_full 1 (PyInt 8) 8 =
     Inr (demo_full\<lparr>board := ''XOXXOOOXX'', status := COMPLETED\<rparr>, Some (GameOverDraw ''XOXXOOOXX''))"
    by code_simp
  have "status demo_full = IN_PROGRESS" "current_turn demo_full = Some 1" "board demo_full ! 8 = EMPTY"
    by (simp_all add: demo_full_def)
  from decide_move_draw [OF demo_full_wf this(1,2) _ this(3) dm] dm show ?thesis by simp
qed

end
