(* ===== verification/Coordinator.thy ===== *)
theory Coordinator
  imports Validator
begin

text \<open>
  The room coordinator: the three \<open>@database_sync_to_async\<close> methods of
  \<open>TicTacToeConsumer\<close> (\<open>src/game/consumers.py\<close>) that read or write a game,
  as functions from the database to the new database and the result.
  Channels runs every such method on one shared worker thread
  (\<open>thread_sensitive\<close>), so each call is one atomic step on the database:
  this is the serialization point of spec section 4.2, and the step
  relation \<open>db_step\<close> below interleaves whole calls.
  \<open>get_game_state\<close> catches only \<open>ObjectDoesNotExist\<close>, the other two
  catch every exception and return \<open>None\<close>.
  The lemmas show that a call keeps the database well formed, that a
  rejected or failing move changes nothing, that rows only move forward
  (status, second player, marks) and that the move log is append-only.
\<close>

section \<open>Handlers\<close>

definition get_game :: "room_code \<Rightarrow> db \<Rightarrow> py_error + game" where
  "get_game rc d = db_get (\<lambda>g. room_code g = rc) (games d)"

definition get_user :: "uid \<Rightarrow> db \<Rightarrow> py_error + user" where
  "get_user u d = db_get (\<lambda>x. user_id x = u) (users d)"

definition save_game :: "game \<Rightarrow> db \<Rightarrow> db" where
  "save_game g d = d\<lparr>games := db_save gid g (games d)\<rparr>"

definition get_game_state :: "room_code \<Rightarrow> db \<Rightarrow> py_error + msg option" where
  "get_game_state rc d =
     (case get_game rc d of
        Inl e \<Rightarrow> (if e = DoesNotExist then Inr None else Inl e)
      | Inr g \<Rightarrow>
          Inr (Some (GameStateMsg (board g) (status g) (name_opt (current_turn g))
                       (username (player1 g)) (name_opt (player2 g)) (name_opt (winner g)))))"

definition add_player_to_game :: "room_code \<Rightarrow> uid \<Rightarrow> db \<Rightarrow> db \<times> msg option" where
  "add_player_to_game rc u d =
     (case get_game rc d of
        Inl _ \<Rightarrow> (d, None)
      | Inr g \<Rightarrow>
          (case get_user u d of
             Inl _ \<Rightarrow> (d, None)
           | Inr _ \<Rightarrow>
               (if player2 g = None \<and> player1 g \<noteq> u then
                  (let g' = g\<lparr>player2 := Some u, status := IN_PROGRESS,
                               current_turn := Some (player1 g)\<rparr>
                   in (save_game g' d,
                       Some (PlayerJoined (username u) IN_PROGRESS (username (player1 g)) (board g'))))
                else (d, None))))"

text \<open>
  The move handler: the guard, then the \<open>GameMove\<close> row (written before the
  outcome is known), then the decision and \<open>game.save()\<close>.  A position
  that passed the guard but is not integral would raise at
  \<open>board_list[position] = symbol\<close>; the guard rules that out.
\<close>

definition make_move :: "room_code \<Rightarrow> uid \<Rightarrow> pyval \<Rightarrow> db \<Rightarrow> db \<times> msg option" where
  "make_move rc u position d =
     (case get_game rc d of
        Inl _ \<Rightarrow> (d, None)
      | Inr g \<Rightarrow>
          (case get_user u d of
             Inl _ \<Rightarrow> (d, None)
           | Inr _ \<Rightarrow>
               (case move_rejected g u position of
                  Inl _ \<Rightarrow> (d, None)
                | Inr True \<Rightarrow> (d, None)
                | Inr False \<Rightarrow>
                    (case py_int_of position of
                       None \<Rightarrow> (d, None)
                     | Some p \<Rightarrow>
                         (let d1 = d\<lparr>moves := moves d @
                                     [\<lparr>gm_game = gid g, gm_player = u, gm_position = p\<rparr>]\<rparr>
                          in case decide_move g u position (nat p) of
                               Inl _ \<Rightarrow> (d1, None)
                             | Inr (g', m) \<Rightarrow> (save_game g' d1, m))))))"

section \<open>Lemmas\<close>

lemma wf_db_game:
  "wf_db d \<Longrightarrow> g \<in> set (games d) \<Longrightarrow>
   wf_game g \<and> length (game_moves d (gid g)) = count_list (board g) MARK_X + count_list (board g) MARK_O"
  by (auto simp: wf_db_def list_all_iff)

lemma get_game_Inr:
  "get_game rc d = Inr g \<Longrightarrow> g \<in> set (games d) \<and> room_code g = rc"
  unfolding get_game_def by (rule db_get_Inr)

lemma make_move_effect:
  assumes "make_move rc u pos d \<noteq> (d, None)"
  obtains g x where "get_game rc d = Inr g" and "get_user u d = Inr x"
    and "move_rejected g u pos = Inr False"
proof -
  from assms obtain g where gg: "get_game rc d = Inr g"
    by (auto simp: make_move_def split: sum.splits)
  with assms obtain x where gu: "get_user u d = Inr x"
    by (auto simp: make_move_def split: sum.splits)
  from gg gu assms have "move_rejected g u pos = Inr False"
    by (auto simp: make_move_def split: sum.splits bool.splits)
  with gg gu show ?thesis by (rule that)
qed

lemma make_move_refused:
  "get_game rc d = Inr g \<Longrightarrow> move_rejected g u pos \<noteq> Inr False \<Longrightarrow> make_move rc u pos d = (d, None)"
  by (auto simp: make_move_def split: sum.splits bool.splits)

lemma get_game_save:
  assumes "distinct (map gid (games d))" and "distinct (map room_code (games d))"
    and "g \<in> set (games d)" and "gid g' = gid g" and "room_code g' = room_code g"
    and "games d' = games d"
  shows "get_game (room_code g) (save_game g' d') = Inr g'"
proof -
  have codes: "map room_code (db_save gid g' (games d)) = map room_code (games d)"
    using assms by (auto intro!: db_save_map_same simp: list_all_iff dest: distinct_key_eq)
  have "g' \<in> set (db_save gid g' (games d))"
    by (rule db_save_mem [OF assms(3)]) (simp add: assms(4))
  with codes assms show ?thesis
    by (simp add: get_game_def save_game_def db_get_unique)
qed

lemma make_move_cases:
  assumes wf: "wf_db d"
  shows "make_move rc u pos d = (d, None) \<or>
    (\<exists>g i g' m. get_game rc d = Inr g \<and> status g = IN_PROGRESS \<and> current_turn g = Some u \<and>
        py_int_of pos = Some (int i) \<and> i < 9 \<and> board g ! i = EMPTY \<and>
        decide_move g u pos i = Inr (g', m) \<and> wf_game g' \<and> gid g' = gid g \<and>
        room_code g' = room_code g \<and> player1 g' = player1 g \<and> player2 g' = player2 g \<and>
        board g' = (board g)[i := mark_of g u] \<and> IN_PROGRESS \<le> status g' \<and>
        make_move rc u pos d =
          (save_game g' (d\<lparr>moves := moves d @ [\<lparr>gm_game = gid g, gm_player = u, gm_position = int i\<rparr>]\<rparr>), m))"
proof (cases "make_move rc u pos d = (d, None)")
  case True
  then show ?thesis by simp
next
  case False
  then obtain g x where gg: "get_game rc d = Inr g" and gu: "get_user u d = Inr x"
    and acc: "move_rejected g u pos = Inr False"
    by (rule make_move_effect)
  then obtain p where st: "status g = IN_PROGRESS" and turn: "current_turn g = Some u"
      and p: "py_int_of pos = Some p" "0 \<le> p" "p \<le> 8" "board g ! nat p = EMPTY"
    by (auto dest: move_rejected_legal)
  define i where "i = nat p"
  from p have pi: "p = int i" "i < 9" "board g ! i = EMPTY" by (auto simp: i_def)
  from gg wf have "wf_game g" by (auto dest: get_game_Inr wf_db_game)
  from decide_move_wf [OF this st turn pi(2) pi(3), of pos]
  obtain g' m where dm: "decide_move g u pos i = Inr (g', m)" and rest: "wf_game g'" "gid g' = gid g"
      "room_code g' = room_code g" "player1 g' = player1 g" "player2 g' = player2 g"
      "board g' = (board g)[i := mark_of g u]" "IN_PROGRESS \<le> status g'"
    by blast
  have "make_move rc u pos d =
          (save_game g' (d\<lparr>moves := moves d @ [\<lparr>gm_game = gid g, gm_player = u, gm_position = int i\<rparr>]\<rparr>), m)"
    using gg gu acc p dm by (simp add: make_move_def pi(1))
  with gg st turn p pi dm rest show ?thesis by blast
qed

lemma wf_db_save:
  assumes wf: "wf_db d" and g: "g \<in> set (games d)"
    and wf': "wf_game g'" and key: "gid g' = gid g" "room_code g' = room_code g"
    and ms: "list_all (\<lambda>m. gm_game m = gid g) ms"
    and cnt: "length (game_moves d (gid g)) + length ms =
              count_list (board g') MARK_X + count_list (board g') MARK_O"
  shows "wf_db (save_game g' (d\<lparr>moves := moves d @ ms\<rparr>))"
proof -
  let ?d' = "save_game g' (d\<lparr>moves := moves d @ ms\<rparr>)"
  have gids: "map gid (games ?d') = map gid (games d)"
    by (simp add: save_game_def db_save_map_key)
  have same: "list_all (\<lambda>y. gid y \<noteq> gid g' \<or> room_code y = room_code g') (games d)"
    using wf g key by (auto simp: list_all_iff wf_db_def dest: distinct_key_eq)
  then have codes: "map room_code (games ?d') = map room_code (games d)"
    by (simp add: save_game_def db_save_map_same)
  have rows: "h \<in> set (games ?d') \<Longrightarrow> h = g' \<or> h \<in> set (games d) \<and> gid h \<noteq> gid g" for h
    using key by (auto simp: save_game_def dest: db_save_set)
  have moves_g: "game_moves ?d' (gid g) = game_moves d (gid g) @ ms"
    using ms by (simp add: game_moves_def save_game_def list_all_iff)
  have moves_h: "k \<noteq> gid g \<Longrightarrow> game_moves ?d' k = game_moves d k" for k
    using ms by (auto simp: game_moves_def save_game_def list_all_iff filter_empty_conv)
  have seq: "list_all (\<lambda>h. gid h < game_seq ?d') (games ?d')"
    unfolding list_all_iff
  proof
    fix h
    assume "h \<in> set (games ?d')"
    then have "h = g' \<or> h \<in> set (games d)" by (blast dest: rows)
    with wf g key show "gid h < game_seq ?d'"
      by (auto simp: wf_db_def list_all_iff save_game_def)
  qed
  have fk: "list_all (\<lambda>m. gm_game m \<in> set (map gid (games ?d'))) (moves ?d')"
    using wf g ms gids by (auto simp: list_all_iff wf_db_def save_game_def)
  have per: "list_all (\<lambda>h. wf_game h \<and> length (game_moves ?d' (gid h)) =
        count_list (board h) MARK_X + count_list (board h) MARK_O) (games ?d')"
    unfolding list_all_iff
  proof
    fix h
    assume "h \<in> set (games ?d')"
    then consider "h = g'" | "h \<in> set (games d)" "gid h \<noteq> gid g" by (blast dest: rows)
    then show "wf_game h \<and> length (game_moves ?d' (gid h)) =
        count_list (board h) MARK_X + count_list (board h) MARK_O"
    proof cases
      case 1
      with wf' key cnt moves_g show ?thesis by simp
    next
      case 2
      with wf moves_h show ?thesis by (simp add: wf_db_game)
    qed
  qed
  from wf gids codes seq fk per show ?thesis
    by (simp add: wf_db_def save_game_def)
qed

lemma make_move_wf:
  assumes wf: "wf_db d"
  shows "wf_db (fst (make_move rc u pos d))"
  using make_move_cases [OF wf, of rc u pos]
proof
  assume "make_move rc u pos d = (d, None)"
  with wf show ?thesis by simp
next
  assume "\<exists>g i g' m. get_game rc d = Inr g \<and> status g = IN_PROGRESS \<and> current_turn g = Some u \<and>
        py_int_of pos = Some (int i) \<and> i < 9 \<and> board g ! i = EMPTY \<and>
        decide_move g u pos i = Inr (g', m) \<and> wf_game g' \<and> gid g' = gid g \<and>
        room_code g' = room_code g \<and> player1 g' = player1 g \<and> player2 g' = player2 g \<and>
        board g' = (board g)[i := mark_of g u] \<and> IN_PROGRESS \<le> status g' \<and>
        make_move rc u pos d =
          (save_game g' (d\<lparr>moves := moves d @ [\<lparr>gm_game = gid g, gm_player = u, gm_position = int i\<rparr>]\<rparr>), m)"
  then obtain g i g' m where gg: "get_game rc d = Inr g" and st: "status g = IN_PROGRESS"
      and turn: "current_turn g = Some u" and i: "i < 9" "board g ! i = EMPTY"
      and g': "wf_game g'" "gid g' = gid g" "room_code g' = room_code g"
      "board g' = (board g)[i := mark_of g u]"
      and mm: "make_move rc u pos d =
          (save_game g' (d\<lparr>moves := moves d @ [\<lparr>gm_game = gid g, gm_player = u, gm_position = int i\<rparr>]\<rparr>), m)"
    by blast
  from gg have gin: "g \<in> set (games d)" by (simp add: get_game_Inr)
  with wf have wfg: "wf_game g" and cnt: "length (game_moves d (gid g)) =
      count_list (board g) MARK_X + count_list (board g) MARK_O"
    by (simp_all add: wf_db_game)
  from legal_move_facts(7) [OF wfg st turn i] g'(4)
  have "length (game_moves d (gid g)) + 1 =
      count_list (board g') MARK_X + count_list (board g') MARK_O"
    by (simp add: cnt)
  with wf gin g' have "wf_db (save_game g' (d\<lparr>moves := moves d @
      [\<lparr>gm_game = gid g, gm_player = u, gm_position = int i\<rparr>]\<rparr>))"
    by (intro wf_db_save) simp_all
  with mm show ?thesis by simp
qed

lemma add_player_cases:
  "add_player_to_game rc u d = (d, None) \<or>
   (\<exists>g x. get_game rc d = Inr g \<and> get_user u d = Inr x \<and> player2 g = None \<and> player1 g \<noteq> u \<and>
      add_player_to_game rc u d =
        (save_game (g\<lparr>player2 := Some u, status := IN_PROGRESS, current_turn := Some (player1 g)\<rparr>) d,
         Some (PlayerJoined (username u) IN_PROGRESS (username (player1 g)) (board g))))"
  by (auto simp: add_player_to_game_def Let_def split: sum.splits)

lemma join_wf_game:
  assumes "wf_game g" and "player2 g = None" and "player1 g \<noteq> u"
  shows "status g = PENDING"
    and "wf_game (g\<lparr>player2 := Some u, status := IN_PROGRESS, current_turn := Some (player1 g)\<rparr>)"
proof -
  from assms(1,2) show st: "status g = PENDING"
    by (cases "status g") (auto simp: wf_game_def)
  with assms show "wf_game (g\<lparr>player2 := Some u, status := IN_PROGRESS, current_turn := Some (player1 g)\<rparr>)"
    by (auto simp: wf_game_def board_simps)
qed

lemma add_player_wf:
  assumes wf: "wf_db d"
  shows "wf_db (fst (add_player_to_game rc u d))"
  using add_player_cases [of rc u d]
proof
  assume "add_player_to_game rc u d = (d, None)"
  with wf show ?thesis by simp
next
  assume "\<exists>g x. get_game rc d = Inr g \<and> get_user u d = Inr x \<and> player2 g = None \<and> player1 g \<noteq> u \<and>
      add_player_to_game rc u d =
        (save_game (g\<lparr>player2 := Some u, status := IN_PROGRESS, current_turn := Some (player1 g)\<rparr>) d,
         Some (PlayerJoined (username u) IN_PROGRESS (username (player1 g)) (board g)))"
  then obtain g where gg: "get_game rc d = Inr g" and p2: "player2 g = None" "player1 g \<noteq> u"
      and ap: "fst (add_player_to_game rc u d) =
        save_game (g\<lparr>player2 := Some u, status := IN_PROGRESS, current_turn := Some (player1 g)\<rparr>) d"
    by auto
  from gg have gin: "g \<in> set (games d)" by (simp add: get_game_Inr)
  with wf have "wf_game g" and cnt: "length (game_moves d (gid g)) =
      count_list (board g) MARK_X + count_list (board g) MARK_O"
    by (simp_all add: wf_db_game)
  from join_wf_game(2) [OF this(1) p2] have
    "wf_game (g\<lparr>player2 := Some u, status := IN_PROGRESS, current_turn := Some (player1 g)\<rparr>)" .
  from wf_db_save [OF wf gin this, of "[]"] cnt
  have "wf_db (save_game (g\<lparr>player2 := Some u, status := IN_PROGRESS, current_turn := Some (player1 g)\<rparr>)
      (d\<lparr>moves := moves d @ []\<rparr>))" by simp
  with ap show ?thesis by simp
qed

lemma move_rejected_cong:
  assumes "py_int_of p = py_int_of q" and "py_num p = py_num q"
  shows "move_rejected g u p = move_rejected g u q"
proof -
  from assms have eqs: "py_le_num (PyInt 0) p = py_le_num (PyInt 0) q"
    "py_le_num p (PyInt 8) = py_le_num q (PyInt 8)"
    "py_str_index (board g) p = py_str_index (board g) q"
    by (simp_all add: py_le_num_def py_str_index_def)
  show ?thesis unfolding move_rejected_def eqs ..
qed

lemma filter_map_inert:
  "(\<And>x. x \<in> set xs \<Longrightarrow> P (f x) = P x \<and> (P x \<longrightarrow> f x = x)) \<Longrightarrow> filter P (map f xs) = filter P xs"
  by (induction xs) auto

lemma get_game_save_other:
  assumes "distinct (map gid (games d))" and "g \<in> set (games d)" and "gid g' = gid g"
    and "room_code g' = room_code g" and "room_code g \<noteq> rc"
  shows "get_game rc (save_game g' d) = get_game rc d"
proof -
  have "filter (\<lambda>h. room_code h = rc) (db_save gid g' (games d)) = filter (\<lambda>h. room_code h = rc) (games d)"
    unfolding db_save_def
  proof (rule filter_map_inert)
    fix h assume h: "h \<in> set (games d)"
    show "(room_code (if gid h = gid g' then g' else h) = rc) = (room_code h = rc) \<and>
          (room_code h = rc \<longrightarrow> (if gid h = gid g' then g' else h) = h)"
    proof (cases "gid h = gid g'")
      case True
      with assms h have "h = g" by (metis distinct_key_eq)
      with True assms show ?thesis by simp
    qed simp
  qed
  then show ?thesis by (simp add: get_game_def save_game_def db_get_def)
qed

lemma get_game_moves [simp]: "get_game rc (d\<lparr>moves := ms\<rparr>) = get_game rc d"
  by (simp add: get_game_def)

lemma add_player_other_room:
  assumes "wf_db d" and "rc \<noteq> rc0"
  shows "get_game rc (fst (add_player_to_game rc0 u d)) = get_game rc d"
  using add_player_cases [of rc0 u d]
proof
  assume "add_player_to_game rc0 u d = (d, None)" then show ?thesis by simp
next
  assume "\<exists>g x. get_game rc0 d = Inr g \<and> get_user u d = Inr x \<and> player2 g = None \<and> player1 g \<noteq> u \<and>
      add_player_to_game rc0 u d =
        (save_game (g\<lparr>player2 := Some u, status := IN_PROGRESS, current_turn := Some (player1 g)\<rparr>) d,
         Some (PlayerJoined (username u) IN_PROGRESS (username (player1 g)) (board g)))"
  then obtain g where gg: "get_game rc0 d = Inr g" and
    a: "fst (add_player_to_game rc0 u d) =
        save_game (g\<lparr>player2 := Some u, status := IN_PROGRESS, current_turn := Some (player1 g)\<rparr>) d"
    by auto
  from gg have "g \<in> set (games d)" "room_code g = rc0" by (auto dest: get_game_Inr)
  with assms show ?thesis unfolding a by (intro get_game_save_other) (auto simp: wf_db_def)
qed

lemma make_move_other_room:
  assumes wf: "wf_db d" and ne: "rc \<noteq> rc0"
  shows "get_game rc (fst (make_move rc0 u p d)) = get_game rc d"
  using make_move_cases [OF wf, of rc0 u p]
proof
  assume "make_move rc0 u p d = (d, None)" then show ?thesis by simp
next
  assume "\<exists>g i g' m. get_game rc0 d = Inr g \<and> status g = IN_PROGRESS \<and> current_turn g = Some u \<and>
        py_int_of p = Some (int i) \<and> i < 9 \<and> board g ! i = EMPTY \<and>
        decide_move g u p i = Inr (g', m) \<and> wf_game g' \<and> gid g' = gid g \<and>
        room_code g' = room_code g \<and> player1 g' = player1 g \<and> player2 g' = player2 g \<and>
        board g' = (board g)[i := mark_of g u] \<and> IN_PROGRESS \<le> status g' \<and>
        make_move rc0 u p d =
          (save_game g' (d\<lparr>moves := moves d @ [\<lparr>gm_game = gid g, gm_player = u, gm_position = int i\<rparr>]\<rparr>), m)"
  then obtain g i g' m where gg: "get_game rc0 d = Inr g" and id: "gid g' = gid g"
      and rcg: "room_code g' = room_code g"
      and mm: "make_move rc0 u p d =
          (save_game g' (d\<lparr>moves := moves d @ [\<lparr>gm_game = gid g, gm_player = u, gm_position = int i\<rparr>]\<rparr>), m)"
    by blast
  from gg have "g \<in> set (games d)" "room_code g = rc0" by (auto dest: get_game_Inr)
  with wf id rcg ne have "get_game rc (save_game g' (d\<lparr>moves := moves d @ [\<lparr>gm_game = gid g, gm_player = u, gm_position = int i\<rparr>]\<rparr>)) =
      get_game rc (d\<lparr>moves := moves d @ [\<lparr>gm_game = gid g, gm_player = u, gm_position = int i\<rparr>]\<rparr>)"
    by (intro get_game_save_other) (auto simp: wf_db_def)
  with mm show ?thesis by simp
qed

section \<open>Properties\<close>

text \<open>
  C2.  A call of \<open>make_move\<close> changes the database or emits a message only
  when the room and the user exist, the game is in progress, it is the
  caller's turn and the position is an integer from 0 to 8 naming an empty
  cell.  A move on a pending or completed game, out of turn, out of range,
  on an occupied cell or with a malformed position leaves the state as it
  was and is answered by nothing at all.
\<close>

theorem make_move_only_legal:
  "make_move rc u pos d \<noteq> (d, None) \<Longrightarrow>
   \<exists>g x i. get_game rc d = Inr g \<and> get_user u d = Inr x \<and> status g = IN_PROGRESS \<and>
     current_turn g = Some u \<and> py_int_of pos = Some i \<and> 0 \<le> i \<and> i \<le> 8 \<and>
     board g ! nat i = EMPTY"
proof -
  assume "make_move rc u pos d \<noteq> (d, None)"
  then obtain g x where "get_game rc d = Inr g" "get_user u d = Inr x"
    "move_rejected g u pos = Inr False"
    by (rule make_move_effect)
  then show ?thesis by (blast dest: move_rejected_legal)
qed

text \<open>
  C3.  Exactly one move per turn: after a move of a player has been
  accepted on a well-formed database, a second move of the same player
  in the same room (a duplicate message, a second connection) is refused
  and changes nothing.
\<close>

theorem make_move_one_per_turn:
  assumes wf: "wf_db d" and mv: "make_move rc u p d = (d', m)" and acc: "(d', m) \<noteq> (d, None)"
  shows "make_move rc u q d' = (d', None)"
proof -
  from make_move_cases [OF wf, of rc u p] mv acc obtain g i g' m' where
    gg: "get_game rc d = Inr g" and st: "status g = IN_PROGRESS" and turn: "current_turn g = Some u"
    and i: "i < 9" and dm: "decide_move g u p i = Inr (g', m')"
    and key: "gid g' = gid g" "room_code g' = room_code g"
    and d': "d' = save_game g' (d\<lparr>moves := moves d @ [\<lparr>gm_game = gid g, gm_player = u, gm_position = int i\<rparr>]\<rparr>)"
    by auto
  from gg have gin: "g \<in> set (games d)" and rc: "room_code g = rc" by (simp_all add: get_game_Inr)
  with wf have "wf_game g" by (simp add: wf_db_game)
  from decide_move_next_turn [OF this st turn i dm]
  have "move_rejected g' u q = Inr True" by (auto simp: move_rejected_def)
  moreover from wf gin key have "get_game rc d' = Inr g'"
    unfolding d' rc [symmetric] by (intro get_game_save) (simp_all add: wf_db_def)
  ultimately show ?thesis by (simp add: make_move_refused)
qed

text \<open>
  C23.  Attaching a second, distinct, existing user to a pending room makes
  that user player2, starts the game with player1 to move, leaves the move
  log alone, keeps the database well formed and broadcasts
  \<open>player_joined\<close> with the empty board.
\<close>

theorem add_player_joins:
  assumes wf: "wf_db d" and gg: "get_game rc d = Inr g" and st: "status g = PENDING"
    and gu: "get_user u d = Inr x" and ne: "u \<noteq> player1 g"
  shows "\<exists>d'. add_player_to_game rc u d = (d', Some (PlayerJoined None IN_PROGRESS None empty_board)) \<and>
           get_game rc d' =
             Inr (g\<lparr>player2 := Some u, status := IN_PROGRESS, current_turn := Some (player1 g)\<rparr>) \<and>
           moves d' = moves d \<and> wf_db d'"
proof -
  from gg have gin: "g \<in> set (games d)" and rc: "room_code g = rc" by (simp_all add: get_game_Inr)
  with wf st have p: "player2 g = None" "board g = empty_board"
    by (auto simp: wf_db_def list_all_iff wf_game_def)
  let ?g' = "g\<lparr>player2 := Some u, status := IN_PROGRESS, current_turn := Some (player1 g)\<rparr>"
  have ap: "add_player_to_game rc u d = (save_game ?g' d, Some (PlayerJoined None IN_PROGRESS None empty_board))"
    using gg gu p ne by (simp add: add_player_to_game_def username_def)
  have "get_game rc (save_game ?g' d) = Inr ?g'"
    using wf gin unfolding rc [symmetric] by (intro get_game_save) (simp_all add: wf_db_def)
  moreover from add_player_wf [OF wf, of rc u] ap have "wf_db (save_game ?g' d)" by simp
  ultimately show ?thesis using ap by (simp add: save_game_def)
qed

text \<open>
  The \<open>game_state\<close> snapshot names nobody: since the user model has no
  \<open>username\<close> field, its \<open>current_turn\<close>, \<open>player1\<close>, \<open>player2\<close> and
  \<open>winner\<close> are all \<open>null\<close>, whoever plays.
\<close>

theorem get_game_state_names_nobody:
  "get_game_state rc d = Inr (Some m) \<Longrightarrow>
   gs_turn m = None \<and> gs_player1 m = None \<and> gs_player2 m = None \<and> gs_winner m = None"
  by (auto simp: get_game_state_def name_opt_def username_def split: sum.splits if_splits option.splits)

text \<open>
  Two position values with the same numeric and integral reading have
  the same effect on the database: in particular the JSON boolean
  \<open>true\<close> plays cell 1 and \<open>false\<close> cell 0, as Python's \<open>bool\<close> is an
  \<open>int\<close>.
\<close>

theorem make_move_same_index:
  "py_int_of p = py_int_of q \<Longrightarrow> py_num p = py_num q \<Longrightarrow>
   fst (make_move rc u p d) = fst (make_move rc u q d)"
  by (auto simp: make_move_def move_rejected_cong [of p q] decide_move_def Let_def
      split: sum.splits option.splits bool.splits)

end
