(* ===== verification/Wire.thy ===== *)
theory Wire
  imports Coordinator
begin

text \<open>
  The outbound wire format: the dictionaries the consumer builds for each
  message (\<open>get_game_state\<close>, \<open>add_player_to_game\<close>, \<open>make_move\<close> and the
  error replies of \<open>receive\<close> in \<open>src/game/consumers.py\<close>), as the JSON
  value \<open>json.dumps\<close> serializes, and the message shapes of the wire
  protocol of spec section 6, as a predicate on JSON values.  The property
  shown is that every message the handlers return on a well-formed
  database has its protocol shape, except a \<open>move_made\<close> for a JSON
  boolean position, which echoes the boolean.
\<close>

section \<open>Encoding\<close>

text \<open>\<open>game.status\<close>: the stored choice value.\<close>

fun status_str :: "status \<Rightarrow> string" where
  "status_str PENDING = ''PENDING''"
| "status_str IN_PROGRESS = ''IN_PROGRESS''"
| "status_str COMPLETED = ''COMPLETED''"

definition json_opt_str :: "string option \<Rightarrow> pyval" where
  "json_opt_str x = (case x of None \<Rightarrow> PyNone | Some t \<Rightarrow> PyStr t)"

text \<open>\<open>Game.__str__\<close>.\<close>

definition game_str :: "game \<Rightarrow> string" where
  "game_str g = ''Game '' @ room_code g @ '' - '' @ status_str (status g)"

text \<open>The dictionaries, one per literal of the consumer.\<close>

definition game_state_json ::
  "string \<Rightarrow> status \<Rightarrow> string option \<Rightarrow> string option \<Rightarrow> string option \<Rightarrow> string option \<Rightarrow> pyval" where
  "game_state_json b st t p1 p2 w =
     PyDict [(''action'', PyStr ''game_state''), (''board'', PyStr b), (''status'', PyStr (status_str st)),
             (''current_turn'', json_opt_str t), (''player1'', json_opt_str p1),
             (''player2'', json_opt_str p2), (''winner'', json_opt_str w)]"

definition player_joined_json :: "string option \<Rightarrow> status \<Rightarrow> string option \<Rightarrow> string \<Rightarrow> pyval" where
  "player_joined_json p2 st t b =
     PyDict [(''action'', PyStr ''player_joined''), (''player2'', json_opt_str p2),
             (''status'', PyStr (status_str st)), (''current_turn'', json_opt_str t), (''board'', PyStr b)]"

definition game_over_win_json :: "string option \<Rightarrow> string \<Rightarrow> nat list \<Rightarrow> pyval" where
  "game_over_win_json w b combo =
     PyDict [(''action'', PyStr ''game_over''), (''winner'', json_opt_str w), (''board'', PyStr b),
             (''winning_combo'', PyList (map (\<lambda>i. PyInt (int i)) combo))]"

definition game_over_draw_json :: "string \<Rightarrow> pyval" where
  "game_over_draw_json b =
     PyDict [(''action'', PyStr ''game_over''), (''winner'', PyNone), (''board'', PyStr b),
             (''status'', PyStr ''draw'')]"

definition move_made_json :: "pyval \<Rightarrow> char \<Rightarrow> string option \<Rightarrow> string \<Rightarrow> pyval" where
  "move_made_json pos s nt b =
     PyDict [(''action'', PyStr ''move_made''), (''position'', pos), (''symbol'', PyStr [s]),
             (''next_turn'', json_opt_str nt), (''board'', PyStr b)]"

definition error_json :: "string \<Rightarrow> pyval" where
  "error_json e = PyDict [(''error'', PyStr e)]"

text \<open>\<open>json.dumps(message)\<close> of \<open>send\<close> and \<open>game_message\<close>, per message.\<close>

fun msg_json :: "msg \<Rightarrow> pyval" where
  "msg_json (GameStateMsg b st t p1 p2 w) = game_state_json b st t p1 p2 w"
| "msg_json (PlayerJoined p2 st t b) = player_joined_json p2 st t b"
| "msg_json (MoveMade pos s nt b) = move_made_json pos s nt b"
| "msg_json (GameOverWin w b combo) = game_over_win_json w b combo"
| "msg_json (GameOverDraw b) = game_over_draw_json b"
| "msg_json (ErrorMsg e) = error_json e"

section \<open>The protocol's message shapes\<close>

text \<open>
  Spec section 6: objects tagged by \<open>action\<close> (\<open>game_state\<close> with board,
  status, current_turn, player1, player2, winner; \<open>player_joined\<close>;
  \<open>move_made\<close> with an integer position 0..8, the symbol, next_turn and
  the board; \<open>game_over\<close> with winner or null, board, and the winning
  combination or \<open>status: "draw"\<close>), or an \<open>error\<close> object.  A board is a
  9-character string; a player is a string or null.
\<close>

definition is_board :: "pyval \<Rightarrow> bool" where
  "is_board v \<longleftrightarrow> (case v of PyStr b \<Rightarrow> length b = 9 | _ \<Rightarrow> False)"

definition is_player :: "pyval \<Rightarrow> bool" where
  "is_player v \<longleftrightarrow> (case v of PyNone \<Rightarrow> True | PyStr _ \<Rightarrow> True | _ \<Rightarrow> False)"

definition is_str :: "pyval \<Rightarrow> bool" where
  "is_str v \<longleftrightarrow> (case v of PyStr _ \<Rightarrow> True | _ \<Rightarrow> False)"

definition is_cell :: "pyval \<Rightarrow> bool" where
  "is_cell v \<longleftrightarrow> (case v of PyInt i \<Rightarrow> 0 \<le> i \<and> i \<le> 8 | _ \<Rightarrow> False)"

definition is_line :: "pyval \<Rightarrow> bool" where
  "is_line v \<longleftrightarrow> (case v of PyList xs \<Rightarrow> length xs = 3 \<and> list_all is_cell xs | _ \<Rightarrow> False)"

text \<open>The keys of an object, in order, and each key's value by a test.\<close>

definition has_fields :: "(string \<times> pyval) list \<Rightarrow> (string \<times> (pyval \<Rightarrow> bool)) list \<Rightarrow> bool" where
  "has_fields kvs spec \<longleftrightarrow>
     map fst kvs = map fst spec \<and> list_all2 (\<lambda>(k, v) (k', P). P v) kvs spec"

definition wire_ok :: "pyval \<Rightarrow> bool" where
  "wire_ok v \<longleftrightarrow>
     (case v of
        PyDict kvs \<Rightarrow>
          has_fields kvs [(''action'', (=) (PyStr ''game_state'')), (''board'', is_board),
            (''status'', is_str), (''current_turn'', is_player), (''player1'', is_player),
            (''player2'', is_player), (''winner'', is_player)] \<or>
          has_fields kvs [(''action'', (=) (PyStr ''player_joined'')), (''player2'', is_player),
            (''status'', is_str), (''current_turn'', is_player), (''board'', is_board)] \<or>
          has_fields kvs [(''action'', (=) (PyStr ''move_made'')), (''position'', is_cell),
            (''symbol'', \<lambda>x. x = PyStr ''X'' \<or> x = PyStr ''O''), (''next_turn'', is_player),
            (''board'', is_board)] \<or>
          has_fields kvs [(''action'', (=) (PyStr ''game_over'')), (''winner'', is_player),
            (''board'', is_board), (''winning_combo'', is_line)] \<or>
          has_fields kvs [(''action'', (=) (PyStr ''game_over'')), (''winner'', is_player),
            (''board'', is_board), (''status'', (=) (PyStr ''draw''))] \<or>
          has_fields kvs [(''error'', is_str)]
      | _ \<Rightarrow> False)"

section \<open>Lemmas\<close>

text \<open>Each constructor's encoding has its protocol shape, given a 9-cell board.\<close>

lemma wire_ok_msg_json:
  "length b = 9 \<Longrightarrow> wire_ok (msg_json (GameStateMsg b st t p1 p2 w))"
  "length b = 9 \<Longrightarrow> wire_ok (msg_json (PlayerJoined p2 st t b))"
  "length b = 9 \<Longrightarrow> 0 \<le> i \<Longrightarrow> i \<le> 8 \<Longrightarrow> s = MARK_X \<or> s = MARK_O \<Longrightarrow>
   wire_ok (msg_json (MoveMade (PyInt i) s nt b))"
  "length b = 9 \<Longrightarrow> c \<in> set winning_combinations \<Longrightarrow> wire_ok (msg_json (GameOverWin w b c))"
  "length b = 9 \<Longrightarrow> wire_ok (msg_json (GameOverDraw b))"
  "wire_ok (msg_json (ErrorMsg e))"
  by (auto simp: wire_ok_def has_fields_def is_board_def is_player_def is_str_def is_cell_def
      is_line_def json_opt_str_def winning_combinations_def game_state_json_def player_joined_json_def
      move_made_json_def game_over_win_json_def game_over_draw_json_def error_json_def split: option.splits)

lemma get_game_board:
  "wf_db d \<Longrightarrow> get_game rc d = Inr g \<Longrightarrow> length (board g) = 9"
  by (auto dest!: get_game_Inr wf_db_game simp: wf_game_def marks_ok_def)

lemma find_winning_combo_mem:
  "find P winning_combinations = Some c \<Longrightarrow> c \<in> set winning_combinations"
  by (auto simp: find_Some_iff)

lemma decide_move_msg_wire_ok:
  assumes "length (board g) = 9" and "i < 9" and "decide_move g u (PyInt (int i)) i = Inr (g', Some m)"
  shows "wire_ok (msg_json m)"
  using assms by (auto simp: decide_move_eq Let_def mark_of_def wire_ok_msg_json simp del: msg_json.simps
      dest: find_winning_combo_mem split: option.splits if_splits)

lemma py_int_of_not_bool:
  "py_int_of pos = Some k \<Longrightarrow> \<forall>b. pos \<noteq> PyBool b \<Longrightarrow> pos = PyInt k"
  by (cases pos) auto

section \<open>Properties\<close>

text \<open>
  C17. Typing of the outbound protocol: on a well-formed database every
  message that \<open>get_game_state\<close>, \<open>add_player_to_game\<close> and \<open>make_move\<close>
  return serializes to a JSON object of one of the protocol's shapes (a
  9-character board, players as strings or null, a \<open>move_made\<close> position
  that is an integer 0..8 with symbol X or O, a winning line of three
  cells), provided the submitted position is not a JSON boolean.
\<close>

theorem handler_messages_wire_ok:
  assumes wf: "wf_db d" and notbool: "\<forall>b. pos \<noteq> PyBool b"
  shows "(\<forall>m. get_game_state rc d = Inr (Some m) \<longrightarrow> wire_ok (msg_json m)) \<and>
         (\<forall>m. snd (add_player_to_game rc u d) = Some m \<longrightarrow> wire_ok (msg_json m)) \<and>
         (\<forall>m. snd (make_move rc u pos d) = Some m \<longrightarrow> wire_ok (msg_json m))"
proof (intro conjI allI impI)
  fix m
  assume "get_game_state rc d = Inr (Some m)"
  with wf show "wire_ok (msg_json m)"
    by (auto simp: get_game_state_def wire_ok_msg_json simp del: msg_json.simps
        dest: get_game_board split: sum.splits if_splits)
next
  fix m
  assume "snd (add_player_to_game rc u d) = Some m"
  with wf show "wire_ok (msg_json m)"
    by (auto simp: add_player_to_game_def Let_def wire_ok_msg_json simp del: msg_json.simps
        dest: get_game_board split: sum.splits if_splits)
next
  fix m
  assume mm: "snd (make_move rc u pos d) = Some m"
  from make_move_cases [OF wf, of rc u pos] mm
  obtain g i g' where g: "get_game rc d = Inr g" and i: "py_int_of pos = Some (int i)" "i < 9"
    and dm: "decide_move g u pos i = Inr (g', Some m)"
    by auto
  from i(1) notbool have "pos = PyInt (int i)" by (rule py_int_of_not_bool)
  with get_game_board [OF wf g] i dm show "wire_ok (msg_json m)"
    by (auto intro: decide_move_msg_wire_ok)
qed

end
