(* ===== verification/Routing.thy ===== *)
theory Routing
  imports Prelude
begin

text \<open>
  URL dispatch.  \<open>src/tictactoe/routing.py\<close> builds the ASGI application: a
  \<open>ProtocolTypeRouter\<close> that sends \<open>websocket\<close> scopes through
  \<open>AuthMiddlewareStack\<close> to a \<open>URLRouter\<close> over
  \<open>game.routing.websocket_urlpatterns\<close>, and \<open>src/authenticate/urls.py\<close> lists
  the REST endpoints of the account views, plus the media files
  \<open>static()\<close> serves under \<open>DEBUG\<close>.  Routes are modelled as the regular
  expressions Django compiles them to: literal text, the \<open>str\<close> converter
  \<open>[^/]+\<close> (\<open><name>\<close> in \<open>path()\<close>), and \<open>(?P<path>.*)\<close> of \<open>static()\<close>;
  a match is Python's backtracking search, greedy first, so the captured
  keyword arguments are the ones the view receives.  \<open>path()\<close> anchors the
  end with \<open>\Z\<close>, \<open>static()\<close> with \<open>$\<close>, which also accepts one final
  newline.  \<open>AuthMiddlewareStack\<close> only adds the session user to the scope,
  which the consumer never reads (it authenticates by the query-string
  token), so it is the identity here.  The module \<open>game/routing.py\<close> is
  not part of the repository; its one route is modelled from the spec (the
  connection URL carries the room code).
\<close>

section \<open>Routes\<close>

datatype seg =
    Lit string
  | Str string
  | Any string

datatype view =
    SignIn | SignUp | LogoutView | ForgotPassword | ResetPassword | VerifyOTP
  | UserProfileAPIView | ServeMedia | TicTacToeConsumer

datatype url_error =
    NoRoute
  | ImproperlyConfigured
  | NoApplication string

text \<open>A route: its segments, whether its end anchor is \<open>$\<close>, and its view.\<close>

type_synonym url_pattern = "seg list \<times> bool \<times> view"
type_synonym url_kwargs = "(string \<times> string) list"

fun first_some :: "'a option list \<Rightarrow> 'a option" where
  "first_some [] = None"
| "first_some (Some x # _) = Some x"
| "first_some (None # xs) = first_some xs"

abbreviation NL :: char where "NL \<equiv> CHR 0x0A"

text \<open>
  \<open>regex.search\<close> anchored at the start: a capture tries its longest
  extent first and gives back one character at a time.
\<close>

fun match_segs :: "bool \<Rightarrow> seg list \<Rightarrow> string \<Rightarrow> url_kwargs option" where
  "match_segs e [] s = (if s = [] \<or> e \<and> s = [NL] then Some [] else None)"
| "match_segs e (Lit l # ps) s =
     (if take (length l) s = l then match_segs e ps (drop (length l) s) else None)"
| "match_segs e (Str n # ps) s =
     first_some (map (\<lambda>k. map_option (Cons (n, take k s)) (match_segs e ps (drop k s)))
       (rev [1..<Suc (length (takeWhile (\<lambda>c. c \<noteq> CHR ''/'') s))]))"
| "match_segs e (Any n # ps) s =
     first_some (map (\<lambda>k. map_option (Cons (n, take k s)) (match_segs e ps (drop k s)))
       (rev [0..<Suc (length (takeWhile (\<lambda>c. c \<noteq> NL) s))]))"

text \<open>\<open>URLResolver.resolve\<close>: the first route that matches, in list order.\<close>

fun resolve :: "url_pattern list \<Rightarrow> string \<Rightarrow> (view \<times> url_kwargs) option" where
  "resolve [] p = None"
| "resolve ((ps, e, v) # pats) p =
     (case match_segs e ps p of Some kw \<Rightarrow> Some (v, kw) | None \<Rightarrow> resolve pats p)"

section \<open>The REST endpoints of the account app\<close>

definition auth_base_patterns :: "url_pattern list" where
  "auth_base_patterns =
     [([Lit ''user/signIn/''], False, SignIn),
      ([Lit ''user/signUp/''], False, SignUp),
      ([Lit ''user/signOut/''], False, LogoutView),
      ([Lit ''forgotPassword/''], False, ForgotPassword),
      ([Lit ''resetPassword/''], False, ResetPassword),
      ([Lit ''verifyOTP/''], False, VerifyOTP),
      ([Lit ''user/profile/'', Str ''emailID''], False, UserProfileAPIView),
      ([Lit ''user/profile/''], False, UserProfileAPIView)]"

text \<open>
  \<open>urlsplit(prefix).netloc\<close> is non-empty: after an optional scheme
  (a letter, then letters, digits, \<open>+-.\<close>, up to the first colon) the rest
  starts with \<open>//\<close> and a host character.
\<close>

definition scheme_char :: "char \<Rightarrow> bool" where
  "scheme_char c \<longleftrightarrow> c \<in> set (''abcdefghijklmnopqrstuvwxyzABCDEFGHIJKLMNOPQRSTUVWXYZ0123456789+-.'')"

definition has_netloc :: "string \<Rightarrow> bool" where
  "has_netloc u =
     (let a = takeWhile (\<lambda>c. c \<noteq> CHR '':'') u; b = dropWhile (\<lambda>c. c \<noteq> CHR '':'') u;
          r = (if b \<noteq> [] \<and> a \<noteq> [] \<and> hd a \<in> set (''abcdefghijklmnopqrstuvwxyzABCDEFGHIJKLMNOPQRSTUVWXYZ'')
                  \<and> list_all scheme_char a then tl b else u)
      in take 2 r = ''//'' \<and> (case drop 2 r of [] \<Rightarrow> False | c # _ \<Rightarrow> c \<notin> set ''/?#''))"

text \<open>\<open>django.conf.urls.static.static(prefix)\<close>.\<close>

definition static_patterns :: "bool \<Rightarrow> string \<Rightarrow> url_error + url_pattern list" where
  "static_patterns debug prefix =
     (if prefix = [] then Inl ImproperlyConfigured
      else if \<not> debug \<or> has_netloc prefix then Inr []
      else Inr [([Lit (dropWhile (\<lambda>c. c = CHR ''/'') prefix), Any ''path''], True, ServeMedia)])"

text \<open>The module's \<open>urlpatterns\<close> after line 17, for \<open>DEBUG\<close> and \<open>MEDIA_URL\<close>.\<close>

definition auth_urlpatterns :: "bool \<Rightarrow> string \<Rightarrow> url_error + url_pattern list" where
  "auth_urlpatterns debug media_url =
     (if debug then
        (case static_patterns debug media_url of
           Inl e \<Rightarrow> Inl e
         | Inr ps \<Rightarrow> Inr (auth_base_patterns @ ps))
      else Inr auth_base_patterns)"

section \<open>The ASGI application\<close>

definition websocket_urlpatterns :: "url_pattern list" where
  "websocket_urlpatterns = [([Lit ''ws/game/'', Str ''room_code'', Lit ''/''], False, TicTacToeConsumer)]"

text \<open>
  \<open>URLRouter\<close> as the outermost router (empty \<open>root_path\<close>): leading
  slashes are stripped, then the first matching route wins; no match raises
  \<open>ValueError("No route found")\<close>.
\<close>

definition url_router :: "url_pattern list \<Rightarrow> string \<Rightarrow> url_error + view \<times> url_kwargs" where
  "url_router pats path =
     (case resolve pats (dropWhile (\<lambda>c. c = CHR ''/'') path) of
        None \<Rightarrow> Inl NoRoute
      | Some r \<Rightarrow> Inr r)"

definition asgi_application :: "string \<Rightarrow> string \<Rightarrow> url_error + view \<times> url_kwargs" where
  "asgi_application scope_type path =
     (if scope_type = ''websocket'' then url_router websocket_urlpatterns path
      else Inl (NoApplication scope_type))"

section \<open>The language of a route\<close>


section \<open>Lemmas\<close>

lemma first_some_Nones:
  "\<forall>x\<in>set xs. f x = None \<Longrightarrow> first_some (map f xs) = None"
  by (induction xs) auto

lemma first_some_head:
  "\<forall>x\<in>set xs. f x = None \<Longrightarrow> first_some (map f (y # xs)) = f y"
  by (cases "f y") (auto simp: first_some_Nones)

lemma drop_takeWhile_hd:
  assumes "k < length (takeWhile P s)"
  shows "\<exists>c t. drop k s = c # t \<and> P c"
proof -
  from assms have k: "k < length s" by (meson length_takeWhile_le order_less_le_trans)
  have "s ! k = takeWhile P s ! k" using assms by (simp add: takeWhile_nth)
  then have "P (s ! k)" using assms by (metis nth_mem set_takeWhileD)
  with k show ?thesis by (metis Cons_nth_drop_Suc)
qed

lemma first_some_greedy:
  assumes "0 < m" and "\<And>k. 0 < k \<Longrightarrow> k < m \<Longrightarrow> f k = None"
  shows "first_some (map f (rev [1..<Suc m])) = f m"
proof -
  have "rev [1..<Suc m] = m # rev [1..<m]" using assms(1) by simp
  moreover have "\<forall>k\<in>set (rev [1..<m]). f k = None" using assms(2) by simp
  ultimately show ?thesis by (simp only: first_some_head)
qed

text \<open>The \<open>str\<close> converter before a literal that starts with a slash takes the whole segment.\<close>

lemma match_Str_slash:
  "match_segs e (Str n # Lit (CHR ''/'' # l) # ps) s =
     (let w = takeWhile (\<lambda>c. c \<noteq> CHR ''/'') s
      in if w = [] then None
         else map_option (Cons (n, w)) (match_segs e (Lit (CHR ''/'' # l) # ps) (drop (length w) s)))"
proof (cases "takeWhile (\<lambda>c. c \<noteq> CHR ''/'') s = []")
  case True
  then show ?thesis by simp
next
  case False
  define w where "w = takeWhile (\<lambda>c. c \<noteq> CHR ''/'') s"
  define f where "f = (\<lambda>k. map_option (Cons (n, take k s)) (match_segs e (Lit (CHR ''/'' # l) # ps) (drop k s)))"
  have none: "f k = None" if "0 < k" "k < length w" for k
    using drop_takeWhile_hd [of k "\<lambda>c. c \<noteq> CHR ''/''" s] that by (auto simp: f_def w_def)
  have "match_segs e (Str n # Lit (CHR ''/'' # l) # ps) s = first_some (map f (rev [1..<Suc (length w)]))"
    by (simp only: match_segs.simps(3) f_def w_def)
  also have "\<dots> = f (length w)"
    using False none by (intro first_some_greedy) (simp_all add: w_def)
  finally show ?thesis
    using False by (simp add: f_def Let_def w_def [symmetric]) (metis w_def takeWhile_eq_take)
qed

lemma slash_segment:
  "(takeWhile (\<lambda>c. c \<noteq> CHR ''/'') q = rc \<and> drop (length rc) q = ''/'') \<longleftrightarrow>
   q = rc @ ''/'' \<and> CHR ''/'' \<notin> set rc"
proof
  assume h: "takeWhile (\<lambda>c. c \<noteq> CHR ''/'') q = rc \<and> drop (length rc) q = ''/''"
  then have "q = rc @ ''/''" by (metis append_take_drop_id takeWhile_eq_take)
  moreover from h have "CHR ''/'' \<notin> set rc" by (auto dest: set_takeWhileD)
  ultimately show "q = rc @ ''/'' \<and> CHR ''/'' \<notin> set rc" by blast
next
  assume h: "q = rc @ ''/'' \<and> CHR ''/'' \<notin> set rc"
  have "takeWhile (\<lambda>c. c \<noteq> CHR ''/'') (rc @ ''/'') = rc @ takeWhile (\<lambda>c. c \<noteq> CHR ''/'') ''/''"
    by (rule takeWhile_append2) (use h in auto)
  with h show "takeWhile (\<lambda>c. c \<noteq> CHR ''/'') q = rc \<and> drop (length rc) q = ''/''"
    by simp
qed

lemma match_Str_end:
  "match_segs False [Str n] s = (if s \<noteq> [] \<and> CHR ''/'' \<notin> set s then Some [(n, s)] else None)"
proof (cases "takeWhile (\<lambda>c. c \<noteq> CHR ''/'') s = []")
  case True
  then have "\<not> (s \<noteq> [] \<and> CHR ''/'' \<notin> set s)" by (cases s) (auto split: if_splits)
  with True show ?thesis by simp
next
  case False
  define w where "w = takeWhile (\<lambda>c. c \<noteq> CHR ''/'') s"
  define f where "f = (\<lambda>k. map_option (Cons (n, take k s)) (match_segs False [] (drop k s)))"
  have none: "f k = None" if "0 < k" "k < length w" for k
    using drop_takeWhile_hd [of k "\<lambda>c. c \<noteq> CHR ''/''" s] that by (auto simp: f_def w_def)
  have "match_segs False [Str n] s = first_some (map f (rev [1..<Suc (length w)]))"
    by (simp only: match_segs.simps(3) f_def w_def)
  also have "\<dots> = f (length w)"
    using False none by (intro first_some_greedy) (simp_all add: w_def)
  finally have eq: "match_segs False [Str n] s = f (length w)" .
  have tw: "take (length w) s = w" by (metis w_def takeWhile_eq_take)
  have wne: "w \<noteq> []" using False by (simp add: w_def)
  show ?thesis
  proof (cases "CHR ''/'' \<in> set s")
    case True
    then have "w \<noteq> s" by (auto simp: w_def dest: set_takeWhileD)
    then have "drop (length w) s \<noteq> []" using tw by (metis append_Nil2 append_take_drop_id)
    with True show ?thesis unfolding eq f_def by simp
  next
    case nos: False
    then have "w = s" unfolding w_def takeWhile_eq_all_conv by blast
    with nos wne show ?thesis unfolding eq f_def by simp
  qed
qed

text \<open>
  The profile endpoints: \<open>user/profile/\<close> with an e-mail segment reaches
  \<open>UserProfileAPIView\<close> with that segment as \<open>emailID\<close>, an empty one the
  route without it, and a segment with a slash no route.
\<close>

lemma resolve_user_profile:
  "resolve auth_base_patterns (''user/profile/'' @ x) =
     (if x = [] then Some (UserProfileAPIView, [])
      else if CHR ''/'' \<notin> set x then Some (UserProfileAPIView, [(''emailID'', x)])
      else None)"
  by (simp add: auth_base_patterns_def match_Str_end del: match_segs.simps(3))

text \<open>
  The websocket application hands a connection to \<open>TicTacToeConsumer\<close>
  exactly when its scope type is \<open>websocket\<close> and its path, after leading
  slashes, is \<open>ws/game/\<close>, a non-empty room code without a slash, and a
  final slash; the \<open>url_route\<close> keyword arguments are then that room code
  and nothing else.
\<close>

lemma websocket_route:
  "asgi_application ty path = Inr (v, kw) \<longleftrightarrow>
   ty = ''websocket'' \<and> v = TicTacToeConsumer \<and>
   (\<exists>rc. dropWhile (\<lambda>c. c = CHR ''/'') path = ''ws/game/'' @ rc @ ''/'' \<and> rc \<noteq> [] \<and>
         CHR ''/'' \<notin> set rc \<and> kw = [(''room_code'', rc)])"
proof -
  define p where "p = dropWhile (\<lambda>c. c = CHR ''/'') path"
  define q where "q = drop 8 p"
  define w where "w = takeWhile (\<lambda>c. c \<noteq> CHR ''/'') q"
  have len: "length ''ws/game/'' = 8" by simp
  have l: "match_segs False [Lit ''/''] t = (if t = ''/'' then Some [] else None)" for t
    by (cases t) auto
  have m1: "match_segs False [Lit ''ws/game/'', Str ''room_code'', Lit ''/''] p =
     (if take 8 p = ''ws/game/'' then match_segs False [Str ''room_code'', Lit ''/''] q else None)"
    by (simp only: match_segs.simps(2) len q_def)
  have m2: "match_segs False [Str ''room_code'', Lit ''/''] q =
     (if w = [] then None else map_option (Cons (''room_code'', w)) (match_segs False [Lit ''/''] (drop (length w) q)))"
    using match_Str_slash [of False "''room_code''" "[]" "[]" q] by (simp only: w_def Let_def)
  have m: "match_segs False [Lit ''ws/game/'', Str ''room_code'', Lit ''/''] p =
     (if take 8 p = ''ws/game/'' \<and> w \<noteq> [] \<and> drop (length w) q = ''/'' then Some [(''room_code'', w)] else None)"
    unfolding m1 m2 l by simp
  have split: "(take 8 p = ''ws/game/'' \<and> w \<noteq> [] \<and> drop (length w) q = ''/'' \<and> kw = [(''room_code'', w)]) \<longleftrightarrow>
     (\<exists>rc. p = ''ws/game/'' @ rc @ ''/'' \<and> rc \<noteq> [] \<and> CHR ''/'' \<notin> set rc \<and> kw = [(''room_code'', rc)])"
  proof
    assume h: "take 8 p = ''ws/game/'' \<and> w \<noteq> [] \<and> drop (length w) q = ''/'' \<and> kw = [(''room_code'', w)]"
    then have "q = w @ ''/'' \<and> CHR ''/'' \<notin> set w" using slash_segment [of q w] by (simp add: w_def)
    moreover have "p = take 8 p @ q" by (simp add: q_def)
    ultimately show "\<exists>rc. p = ''ws/game/'' @ rc @ ''/'' \<and> rc \<noteq> [] \<and> CHR ''/'' \<notin> set rc \<and> kw = [(''room_code'', rc)]"
      using h by auto
  next
    assume "\<exists>rc. p = ''ws/game/'' @ rc @ ''/'' \<and> rc \<noteq> [] \<and> CHR ''/'' \<notin> set rc \<and> kw = [(''room_code'', rc)]"
    then obtain rc where rc: "p = ''ws/game/'' @ rc @ ''/''" "rc \<noteq> []" "CHR ''/'' \<notin> set rc" "kw = [(''room_code'', rc)]"
      by blast
    then have "q = rc @ ''/''" by (simp add: q_def)
    with rc(3) have "w = rc \<and> drop (length w) q = ''/''" using slash_segment [of q rc] by (simp add: w_def)
    with rc show "take 8 p = ''ws/game/'' \<and> w \<noteq> [] \<and> drop (length w) q = ''/'' \<and> kw = [(''room_code'', w)]"
      by auto
  qed
  show ?thesis
    unfolding asgi_application_def url_router_def websocket_urlpatterns_def p_def [symmetric]
    using m split by (auto split: if_splits)
qed











section \<open>Properties\<close>



end
