(* ===== verification/Views.thy ===== *)
theory Views
  imports Coordinator
begin

text \<open>
  The HTTP endpoints of \<open>GameViewSet\<close> (\<open>src/game/views.py\<close>), the
  room-creation collaborator of spec section 6.  \<open>create_game\<close> draws
  6-character codes until one is unused; the random draws are an input list
  (the loop's fuel), and running out of draws is \<open>None\<close>, the loop that has
  not yet returned.  \<open>join_game\<close> only checks that a room can be joined
  (the websocket attach does the joining).  Each request is one atomic step
  on the database here; the race between the \<open>exists()\<close> check and the
  insert of two concurrent requests is not modelled.
\<close>

section \<open>Responses\<close>

text \<open>One entry of \<open>game_history\<close>: player and winner e-mails, and the
  game's \<open>GameMove\<close> rows as the serializer receives them.\<close>

record history_entry =
  h_room_code :: room_code
  h_player1 :: string
  h_player2 :: "string option"
  h_status :: status
  h_winner :: "string option"
  h_moves :: "game_move list"

datatype response =
    Created room_code "string option" status string
  | Found room_code "string option" status string
  | History "history_entry list"
  | ErrorResp nat string

definition websocket_url :: "room_code \<Rightarrow> string" where
  "websocket_url rc = ''ws://127.0.0.1:8000/ws/game/'' @ rc @ ''/''"

section \<open>create_game\<close>

definition code_alphabet :: string where
  "code_alphabet = ''ABCDEFGHIJKLMNOPQRSTUVWXYZ0123456789''"

text \<open>\<open>while Game.objects.filter(room_code=room_code).exists(): redraw\<close>.\<close>

fun pick_room_code :: "game list \<Rightarrow> room_code list \<Rightarrow> room_code option" where
  "pick_room_code gs [] = None"
| "pick_room_code gs (c # cs) =
     (if list_ex (\<lambda>g. room_code g = c) gs then pick_room_code gs cs else Some c)"

definition new_game :: "nat \<Rightarrow> room_code \<Rightarrow> uid \<Rightarrow> game" where
  "new_game k rc u =
     \<lparr>gid = k, room_code = rc, player1 = u, player2 = None, current_turn = None,
      winner = None, status = PENDING, board = empty_board\<rparr>"

definition create_game :: "uid \<Rightarrow> room_code list \<Rightarrow> db \<Rightarrow> (db \<times> response) option" where
  "create_game u draws d =
     (case pick_room_code (games d) draws of
        None \<Rightarrow> None
      | Some rc \<Rightarrow>
          Some (d\<lparr>games := games d @ [new_game (game_seq d) rc u], game_seq := Suc (game_seq d)\<rparr>,
                Created rc (username u) PENDING (websocket_url rc)))"

section \<open>join_game\<close>

text \<open>
  \<open>request.data.get('room_code')\<close> as an optional string (a JSON string
  or absent); \<open>not room_code\<close> holds for the absent and the empty one.
  \<open>filter(...).first()\<close> is the first row in primary-key order.
\<close>

definition join_game :: "uid \<Rightarrow> string option \<Rightarrow> db \<Rightarrow> response" where
  "join_game u rc_opt d =
     (case rc_opt of
        None \<Rightarrow> ErrorResp 400 ''Room code is required''
      | Some rc \<Rightarrow>
          if rc = [] then ErrorResp 400 ''Room code is required''
          else
            (case find (\<lambda>g. room_code g = rc) (games d) of
               None \<Rightarrow> ErrorResp 404 ''Game not found''
             | Some g \<Rightarrow>
                 if status g \<noteq> PENDING then ErrorResp 400 ''Game is already in progress or completed''
                 else if player1 g = u then ErrorResp 400 ''You cannot join your own game''
                 else Found rc (username (player1 g)) (status g) (websocket_url rc)))"

section \<open>game_history\<close>

text \<open>
  \<open>game.player1.email\<close>: the related row is fetched by id, and a missing
  row raises (caught by the view's \<open>except\<close>, a 500).  The union of the two
  querysets is one query with an \<open>OR\<close>: each game once, in table order.
\<close>

definition user_email :: "uid \<Rightarrow> db \<Rightarrow> py_error + string" where
  "user_email u d = (case get_user u d of Inl e \<Rightarrow> Inl e | Inr x \<Rightarrow> Inr (email x))"

definition opt_email :: "uid option \<Rightarrow> db \<Rightarrow> py_error + string option" where
  "opt_email uo d =
     (case uo of None \<Rightarrow> Inr None
      | Some u \<Rightarrow> (case user_email u d of Inl e \<Rightarrow> Inl e | Inr m \<Rightarrow> Inr (Some m)))"

definition history_entry_of :: "db \<Rightarrow> game \<Rightarrow> py_error + history_entry" where
  "history_entry_of d g =
     (case user_email (player1 g) d of
        Inl e \<Rightarrow> Inl e
      | Inr p1 \<Rightarrow>
          (case opt_email (player2 g) d of
             Inl e \<Rightarrow> Inl e
           | Inr p2 \<Rightarrow>
               (case opt_email (winner g) d of
                  Inl e \<Rightarrow> Inl e
                | Inr w \<Rightarrow>
                    Inr \<lparr>h_room_code = room_code g, h_player1 = p1, h_player2 = p2,
                         h_status = status g, h_winner = w, h_moves = game_moves d (gid g)\<rparr>)))"

fun history_loop :: "db \<Rightarrow> game list \<Rightarrow> py_error + history_entry list" where
  "history_loop d [] = Inr []"
| "history_loop d (g # gs) =
     (case history_entry_of d g of
        Inl e \<Rightarrow> Inl e
      | Inr h \<Rightarrow> (case history_loop d gs of Inl e \<Rightarrow> Inl e | Inr hs \<Rightarrow> Inr (h # hs)))"

definition plays_in :: "uid \<Rightarrow> game \<Rightarrow> bool" where
  "plays_in u g \<longleftrightarrow> player1 g = u \<or> player2 g = Some u"

definition game_history :: "uid \<Rightarrow> db \<Rightarrow> response" where
  "game_history u d =
     (case history_loop d (filter (plays_in u) (games d)) of
        Inl _ \<Rightarrow> ErrorResp 500 ''Failed to get game history''
      | Inr hs \<Rightarrow> History hs)"

text \<open>Every user a game names has a row.\<close>

definition users_known :: "db \<Rightarrow> game \<Rightarrow> bool" where
  "users_known d g \<longleftrightarrow>
     player1 g \<in> set (map user_id (users d)) \<and> set_option (player2 g) \<subseteq> set (map user_id (users d)) \<and>
     set_option (winner g) \<subseteq> set (map user_id (users d))"

section \<open>Lemmas\<close>

lemma pick_room_code_fresh:
  "pick_room_code gs draws = Some rc \<Longrightarrow> rc \<in> set draws \<and> \<not> list_ex (\<lambda>g. room_code g = rc) gs"
  by (induction gs draws rule: pick_room_code.induct) (auto split: if_splits)

lemma pick_room_code_Some:
  "list_ex (\<lambda>c. \<not> list_ex (\<lambda>g. room_code g = c) gs) draws \<Longrightarrow> \<exists>rc. pick_room_code gs draws = Some rc"
  by (induction gs draws rule: pick_room_code.induct) auto

lemma new_game_wf: "wf_game (new_game k rc u)"
  by (simp add: new_game_def wf_game_def board_simps)

lemma create_game_wf:
  assumes wf: "wf_db d" and cr: "create_game u draws d = Some (d', r)"
  shows "wf_db d'"
proof -
  from cr obtain rc where pick: "pick_room_code (games d) draws = Some rc"
    and d': "d' = d\<lparr>games := games d @ [new_game (game_seq d) rc u], game_seq := Suc (game_seq d)\<rparr>"
    by (auto simp: create_game_def split: option.splits)
  from pick have fresh: "rc \<notin> set (map room_code (games d))"
    by (auto dest!: pick_room_code_fresh simp: list_ex_iff)
  from wf have seq: "game_seq d \<notin> set (map gid (games d))"
    by (auto simp: wf_db_def list_all_iff)
  have nomoves: "game_moves d (game_seq d) = []"
    unfolding game_moves_def filter_empty_conv
    using wf seq by (force simp: wf_db_def list_all_iff)
  from wf fresh seq nomoves show ?thesis
    by (auto simp: d' wf_db_def list_all_iff new_game_wf game_moves_def)
       (auto simp: new_game_def board_simps)
qed

lemma user_email_ok:
  "distinct (map user_id (users d)) \<Longrightarrow> u \<in> set (map user_id (users d)) \<Longrightarrow> \<exists>m. user_email u d = Inr m"
  by (auto simp: user_email_def get_user_def db_get_unique)

lemma opt_email_ok:
  "distinct (map user_id (users d)) \<Longrightarrow> set_option uo \<subseteq> set (map user_id (users d)) \<Longrightarrow>
   \<exists>m. opt_email uo d = Inr m"
  by (cases uo) (auto simp: opt_email_def dest!: user_email_ok [of d])

lemma history_entry_ok:
  assumes "distinct (map user_id (users d))" and "users_known d g"
  shows "\<exists>h. history_entry_of d g = Inr h \<and> h_room_code h = room_code g \<and> h_status h = status g \<and>
             h_moves h = game_moves d (gid g)"
proof -
  from assms obtain p1 p2 w where "user_email (player1 g) d = Inr p1" "opt_email (player2 g) d = Inr p2"
    "opt_email (winner g) d = Inr w"
    unfolding users_known_def by (metis user_email_ok opt_email_ok)
  then show ?thesis by (simp add: history_entry_of_def)
qed

lemma history_loop_ok:
  "distinct (map user_id (users d)) \<Longrightarrow> list_all (users_known d) gs \<Longrightarrow>
   \<exists>hs. history_loop d gs = Inr hs \<and> map h_room_code hs = map room_code gs \<and>
        map h_status hs = map status gs \<and> map h_moves hs = map (\<lambda>g. game_moves d (gid g)) gs"
proof (induction gs)
  case Nil
  then show ?case by simp
next
  case (Cons g gs)
  then obtain h where "history_entry_of d g = Inr h" "h_room_code h = room_code g" "h_status h = status g"
    "h_moves h = game_moves d (gid g)" by (auto dest: history_entry_ok)
  with Cons show ?case by auto
qed

section \<open>Properties\<close>

text \<open>
  C34.  A successful \<open>create_game\<close> stores a new pending room under one of
  the drawn codes that no existing room uses, with the next game id and
  the requester as player1, and answers 201 with that code and the
  websocket URL.
\<close>

theorem create_game_new_room:
  assumes "create_game u draws d = Some (d', r)"
  shows "\<exists>rc. rc \<in> set draws \<and> rc \<notin> set (map room_code (games d)) \<and>
           get_game rc d' = Inr (new_game (game_seq d) rc u) \<and> game_seq d' = Suc (game_seq d) \<and>
           r = Created rc None PENDING (websocket_url rc)"
proof -
  from assms obtain rc where pick: "pick_room_code (games d) draws = Some rc"
    and d': "d' = d\<lparr>games := games d @ [new_game (game_seq d) rc u], game_seq := Suc (game_seq d)\<rparr>"
    and r: "r = Created rc None PENDING (websocket_url rc)"
    by (auto simp: create_game_def username_def split: option.splits)
  from pick_room_code_fresh [OF pick] have fresh: "rc \<in> set draws" "rc \<notin> set (map room_code (games d))"
    by (auto simp: list_ex_iff)
  then have "filter (\<lambda>g. room_code g = rc) (games d') = [new_game (game_seq d) rc u]"
    by (auto simp: d' filter_empty_conv new_game_def)
  then have "get_game rc d' = Inr (new_game (game_seq d) rc u)"
    by (simp add: get_game_def db_get_def)
  with fresh d' r show ?thesis by auto
qed

text \<open>
  C35.  The redraw loop of \<open>create_game\<close> returns as soon as one drawn code
  is unused: it needs no more draws than the position of the first free
  code in the random sequence.
\<close>

theorem create_game_returns:
  "list_ex (\<lambda>c. c \<notin> set (map room_code (games d))) draws \<Longrightarrow> \<exists>d' r. create_game u draws d = Some (d', r)"
proof -
  assume "list_ex (\<lambda>c. c \<notin> set (map room_code (games d))) draws"
  then have "list_ex (\<lambda>c. \<not> list_ex (\<lambda>g. room_code g = c) (games d)) draws"
    by (force simp: list_ex_iff image_iff)
  then obtain rc where "pick_room_code (games d) draws = Some rc" by (blast dest: pick_room_code_Some)
  then show ?thesis by (simp add: create_game_def)
qed

text \<open>
  C36.  When every user the requester's games name has a row, \<open>game_history\<close>
  answers with one entry per game the requester plays in (as player1 or
  player2), in table order, each with the game's status and its whole move
  log.
\<close>

theorem game_history_lists_games:
  assumes "distinct (map user_id (users d))"
    and "\<forall>g \<in> set (games d). plays_in u g \<longrightarrow> users_known d g"
  shows "\<exists>hs. game_history u d = History hs \<and>
     map h_room_code hs = map room_code (filter (plays_in u) (games d)) \<and>
     map h_status hs = map status (filter (plays_in u) (games d)) \<and>
     map h_moves hs = map (\<lambda>g. game_moves d (gid g)) (filter (plays_in u) (games d))"
proof -
  have "list_all (users_known d) (filter (plays_in u) (games d))"
    using assms(2) by (simp add: list_all_iff)
  from history_loop_ok [OF assms(1) this] show ?thesis by (auto simp: game_history_def)
qed

end
