(* ===== verification/Gateway.thy ===== *)
theory Gateway
  imports Views
begin

text \<open>
  The connection gateway: the websocket handlers of \<open>TicTacToeConsumer\<close>
  (\<open>connect\<close>, \<open>disconnect\<close>, \<open>receive\<close>, \<open>game_message\<close> in
  \<open>src/game/consumers.py\<close>) over an explicit channel layer.  The system
  state \<open>sys\<close> holds the database, the groups of the channel layer
  (\<open>group_add\<close>, \<open>group_discard\<close>, \<open>group_send\<close>), one consumer per
  channel with the point its current handler has reached, the queue of
  events waiting for the consumer, and the frames the server has written to
  each socket.  A handler runs from one \<open>await\<close> to the next in one step
  (\<open>conn_step\<close>), so the steps of different connections interleave
  exactly where the code lets them; a consumer runs one handler at a time
  and takes the next event only when the current handler has returned.
  The JWT verifier is a parameter (the signature check is a library);
  the query string is parsed as the code parses it.
\<close>

section \<open>The query string\<close>

text \<open>Python's \<open>str.split(sep)\<close>: the pieces between separators, empty ones included.\<close>

fun py_split :: "char \<Rightarrow> string \<Rightarrow> string list" where
  "py_split c [] = [[]]"
| "py_split c (x # xs) =
     (let ws = py_split c xs in if x = c then [] # ws else (x # hd ws) # tl ws)"

text \<open>\<open>dict(seq)\<close> of a sequence of lists: each must have length 2.\<close>

fun dict_of_pairs :: "string list list \<Rightarrow> py_error + (string \<times> string) list" where
  "dict_of_pairs [] = Inr []"
| "dict_of_pairs (p # ps) =
     (case p of
        [k, v] \<Rightarrow> (case dict_of_pairs ps of Inl e \<Rightarrow> Inl e | Inr kvs \<Rightarrow> Inr ((k, v) # kvs))
      | _ \<Rightarrow> Inl ValueError)"

text \<open>
  \<open>dict(pair.split('=') for pair in query_string.split('&')).get('token', '')\<close>;
  a later key overrides an earlier one.
\<close>

definition query_token :: "string \<Rightarrow> py_error + string" where
  "query_token qs =
     (case dict_of_pairs (map (py_split CHR ''='') (py_split CHR ''&'' qs)) of
        Inl e \<Rightarrow> Inl e
      | Inr kvs \<Rightarrow> Inr (case map_of (rev kvs) ''token'' of None \<Rightarrow> [] | Some t \<Rightarrow> t))"

text \<open>How a client writes a query string: \<open>'&'.join(k + '=' + v ...)\<close>.\<close>

fun py_join :: "char \<Rightarrow> string list \<Rightarrow> string" where
  "py_join c [] = []"
| "py_join c [w] = w"
| "py_join c (w # ws) = w @ c # py_join c ws"

definition render_query :: "(string \<times> string) list \<Rightarrow> string" where
  "render_query kvs = py_join CHR ''&'' (map (\<lambda>(k, v). k @ ''='' @ v) kvs)"

section \<open>Authentication\<close>

text \<open>
  The verdict of \<open>jwt.decode\<close>: \<open>InvalidTokenError\<close>, or the payload's
  \<open>user_id\<close> claim (\<open>None\<close> when the payload has none, so that
  \<open>payload['user_id']\<close> raises \<open>KeyError\<close>).
\<close>

datatype jwt_result = InvalidToken | Payload "pyval option"

text \<open>
  The row the claim designates in \<open>User.objects.get(id=self.user_id)\<close>: an
  integer claim is an id; any other value finds no user (the lookups that
  use it catch every exception and return \<open>None\<close>).
\<close>

definition uid_of :: "pyval \<Rightarrow> uid option" where
  "uid_of v = (case v of PyInt n \<Rightarrow> if 0 \<le> n then Some (nat n) else None | _ \<Rightarrow> None)"

section \<open>Connections and the channel layer\<close>

definition group_name :: "room_code \<Rightarrow> string" where
  "group_name rc = ''game_'' @ rc"

text \<open>What the server writes to a socket: the handshake accept, a JSON text
  frame, a close, or the abort of a crashed application instance.\<close>

datatype frame = Accepted | Sent msg | Closed | Aborted

text \<open>An inbound text frame: not JSON, or the value \<open>json.loads\<close> returns.\<close>

datatype wire_in = BadJson | Json pyval

datatype event = WsReceive wire_in | GameMessage msg | WsDisconnect

text \<open>Where the consumer's current handler stands: at the \<open>await\<close> it runs next.\<close>

datatype pc =
    Idle
  | Connect_group_add
  | Connect_accept
  | Connect_add_player
  | Connect_broadcast msg
  | Connect_get_state
  | Connect_send msg
  | Receive_move pyval
  | Receive_broadcast msg
  | Stopped

record conn =
  c_room :: room_code
  c_user :: "uid option"
  c_auth :: bool
  c_pc :: pc
  c_open :: bool

record sys =
  s_db :: db
  s_groups :: "string \<Rightarrow> channel set"
  s_conns :: "channel \<Rightarrow> conn option"
  s_inbox :: "channel \<Rightarrow> event list"
  s_out :: "channel \<Rightarrow> frame list"

definition group_add :: "string \<Rightarrow> channel \<Rightarrow> sys \<Rightarrow> sys" where
  "group_add gr ch s = s\<lparr>s_groups := (s_groups s)(gr := insert ch (s_groups s gr))\<rparr>"

definition group_discard :: "string \<Rightarrow> channel \<Rightarrow> sys \<Rightarrow> sys" where
  "group_discard gr ch s = s\<lparr>s_groups := (s_groups s)(gr := s_groups s gr - {ch})\<rparr>"

definition group_send :: "string \<Rightarrow> msg \<Rightarrow> sys \<Rightarrow> sys" where
  "group_send gr m s =
     s\<lparr>s_inbox := (\<lambda>c. if c \<in> s_groups s gr then s_inbox s c @ [GameMessage m] else s_inbox s c)\<rparr>"

definition send :: "channel \<Rightarrow> frame \<Rightarrow> sys \<Rightarrow> sys" where
  "send ch f s = s\<lparr>s_out := (s_out s)(ch := s_out s ch @ [f])\<rparr>"

definition set_conn :: "channel \<Rightarrow> (conn \<Rightarrow> conn) \<Rightarrow> sys \<Rightarrow> sys" where
  "set_conn ch f s = s\<lparr>s_conns := (s_conns s)(ch := map_option f (s_conns s ch))\<rparr>"

definition set_pc :: "channel \<Rightarrow> pc \<Rightarrow> sys \<Rightarrow> sys" where
  "set_pc ch p = set_conn ch (\<lambda>c. c\<lparr>c_pc := p\<rparr>)"

definition push_event :: "channel \<Rightarrow> event \<Rightarrow> sys \<Rightarrow> sys" where
  "push_event ch e s = s\<lparr>s_inbox := (s_inbox s)(ch := s_inbox s ch @ [e])\<rparr>"

text \<open>
  \<open>self.close()\<close>: the close frame; the server then reports the closed
  socket to the consumer as \<open>websocket.disconnect\<close>.  Closing a socket
  that is already closed does nothing.
\<close>

definition close :: "channel \<Rightarrow> sys \<Rightarrow> sys" where
  "close ch s =
     (case s_conns s ch of
        Some c \<Rightarrow>
          if c_open c then set_conn ch (\<lambda>c. c\<lparr>c_open := False\<rparr>) (push_event ch WsDisconnect (send ch Closed s))
          else s
      | None \<Rightarrow> s)"

text \<open>An exception that escapes a handler ends the application instance:
  the server aborts the socket and no further handler runs.\<close>

definition abort :: "channel \<Rightarrow> sys \<Rightarrow> sys" where
  "abort ch s = set_conn ch (\<lambda>c. c\<lparr>c_pc := Stopped, c_open := False\<rparr>) (send ch Aborted s)"

section \<open>The handlers\<close>

text \<open>
  \<open>connect\<close> up to its first \<open>await\<close>: the room from the URL, the token
  from the query string (line 23, outside the \<open>try\<close>), \<open>jwt.decode\<close> and
  \<open>payload['user_id']\<close>; an \<open>InvalidTokenError\<close> or any other exception
  in the \<open>try\<close> closes the socket.
\<close>

definition connect :: "(string \<Rightarrow> jwt_result) \<Rightarrow> channel \<Rightarrow> room_code \<Rightarrow> string \<Rightarrow> sys \<Rightarrow> sys" where
  "connect jwt ch rc qs s =
     (let s1 = s\<lparr>s_conns := (s_conns s)(ch \<mapsto>
                 \<lparr>c_room = rc, c_user = None, c_auth = False, c_pc = Idle, c_open = True\<rparr>)\<rparr>
      in case query_token qs of
           Inl _ \<Rightarrow> abort ch s1
         | Inr tok \<Rightarrow>
             (case jwt tok of
                InvalidToken \<Rightarrow> close ch s1
              | Payload None \<Rightarrow> close ch s1
              | Payload (Some v) \<Rightarrow>
                  set_conn ch (\<lambda>c. c\<lparr>c_user := uid_of v, c_auth := True, c_pc := Connect_group_add\<rparr>) s1))"

text \<open>The database calls with the connection's user; a claim that is no id
  finds no user, which both handlers answer with \<open>None\<close>.\<close>

definition run_add_player :: "conn \<Rightarrow> db \<Rightarrow> db \<times> msg option" where
  "run_add_player c d = (case c_user c of None \<Rightarrow> (d, None) | Some u \<Rightarrow> add_player_to_game (c_room c) u d)"

definition run_make_move :: "conn \<Rightarrow> pyval \<Rightarrow> db \<Rightarrow> db \<times> msg option" where
  "run_make_move c p d = (case c_user c of None \<Rightarrow> (d, None) | Some u \<Rightarrow> make_move (c_room c) u p d)"

text \<open>
  \<open>receive\<close> up to its \<open>await\<close>: \<open>json.loads\<close>, \<open>data.get('action')\<close>
  (an \<open>AttributeError\<close> when the document is not an object) and the
  dispatch on \<open>make_move\<close>; any other action is ignored.
\<close>

definition receive :: "channel \<Rightarrow> wire_in \<Rightarrow> sys \<Rightarrow> sys" where
  "receive ch w s =
     (case w of
        BadJson \<Rightarrow> send ch (Sent (ErrorMsg ''Invalid JSON format'')) s
      | Json (PyDict kvs) \<Rightarrow>
          if dict_get kvs ''action'' = PyStr ''make_move''
          then set_pc ch (Receive_move (dict_get kvs ''position'')) s
          else s
      | Json _ \<Rightarrow> send ch (Sent (ErrorMsg ''Internal server error'')) s)"

definition game_message :: "channel \<Rightarrow> msg \<Rightarrow> sys \<Rightarrow> sys" where
  "game_message ch m = send ch (Sent m)"

text \<open>\<open>disconnect\<close>, after which Channels stops the consumer.\<close>

definition disconnect :: "channel \<Rightarrow> conn \<Rightarrow> sys \<Rightarrow> sys" where
  "disconnect ch c s = set_pc ch Stopped (group_discard (group_name (c_room c)) ch s)"

definition dispatch :: "channel \<Rightarrow> conn \<Rightarrow> event \<Rightarrow> sys \<Rightarrow> sys" where
  "dispatch ch c e s =
     (case e of
        WsReceive w \<Rightarrow> receive ch w s
      | GameMessage m \<Rightarrow> game_message ch m s
      | WsDisconnect \<Rightarrow> disconnect ch c s)"

text \<open>
  One step of the consumer on channel \<open>ch\<close>: the code from the \<open>await\<close>
  its handler stands at to the next one, or, when idle, the start of the
  handler of the next queued event.  \<open>None\<close>: the consumer cannot move.
\<close>

definition conn_step :: "channel \<Rightarrow> sys \<Rightarrow> sys option" where
  "conn_step ch s =
     (case s_conns s ch of
        None \<Rightarrow> None
      | Some c \<Rightarrow>
          (let gr = group_name (c_room c) in
           case c_pc c of
             Connect_group_add \<Rightarrow> Some (set_pc ch Connect_accept (group_add gr ch s))
           | Connect_accept \<Rightarrow> Some (set_pc ch Connect_add_player (send ch Accepted s))
           | Connect_add_player \<Rightarrow>
               (case run_add_player c (s_db s) of (d', m) \<Rightarrow>
                  Some (set_pc ch (case m of None \<Rightarrow> Connect_get_state | Some e \<Rightarrow> Connect_broadcast e)
                          (s\<lparr>s_db := d'\<rparr>)))
           | Connect_broadcast m \<Rightarrow> Some (set_pc ch Connect_get_state (group_send gr m s))
           | Connect_get_state \<Rightarrow>
               (case get_game_state (c_room c) (s_db s) of
                  Inl _ \<Rightarrow> Some (set_pc ch Idle (close ch s))
                | Inr None \<Rightarrow> Some (set_pc ch Idle s)
                | Inr (Some m) \<Rightarrow> Some (set_pc ch (Connect_send m) s))
           | Connect_send m \<Rightarrow> Some (set_pc ch Idle (send ch (Sent m) s))
           | Receive_move p \<Rightarrow>
               (case run_make_move c p (s_db s) of (d', m) \<Rightarrow>
                  Some (set_pc ch (case m of None \<Rightarrow> Idle | Some e \<Rightarrow> Receive_broadcast e)
                          (s\<lparr>s_db := d'\<rparr>)))
           | Receive_broadcast m \<Rightarrow> Some (set_pc ch Idle (group_send gr m s))
           | Stopped \<Rightarrow> None
           | Idle \<Rightarrow>
               (case s_inbox s ch of
                  [] \<Rightarrow> None
                | e # es \<Rightarrow> Some (dispatch ch c e (s\<lparr>s_inbox := (s_inbox s)(ch := es)\<rparr>)))))"

section \<open>The system\<close>

text \<open>
  A step of the whole system: a client opens a socket on a fresh channel,
  sends a text frame on an accepted open socket, or closes it; a consumer
  runs one step; or an HTTP request creates a room.
\<close>

definition client_close :: "channel \<Rightarrow> sys \<Rightarrow> sys" where
  "client_close ch s = set_conn ch (\<lambda>c. c\<lparr>c_open := False\<rparr>) (push_event ch WsDisconnect s)"

definition can_send :: "channel \<Rightarrow> sys \<Rightarrow> bool" where
  "can_send ch s \<longleftrightarrow>
     (case s_conns s ch of None \<Rightarrow> False | Some c \<Rightarrow> c_open c \<and> Accepted \<in> set (s_out s ch))"

inductive sys_step :: "(string \<Rightarrow> jwt_result) \<Rightarrow> sys \<Rightarrow> sys \<Rightarrow> bool" for jwt where
  open_socket: "s_conns s ch = None \<Longrightarrow> sys_step jwt s (connect jwt ch rc qs s)"
| client_send: "can_send ch s \<Longrightarrow> sys_step jwt s (push_event ch (WsReceive w) s)"
| client_closes: "s_conns s ch = Some c \<Longrightarrow> c_open c \<Longrightarrow> sys_step jwt s (client_close ch s)"
| run: "conn_step ch s = Some s' \<Longrightarrow> sys_step jwt s s'"
| http_create: "create_game u draws (s_db s) = Some (d', r) \<Longrightarrow> sys_step jwt s (s\<lparr>s_db := d'\<rparr>)"

definition init_sys :: "db \<Rightarrow> sys" where
  "init_sys d = \<lparr>s_db = d, s_groups = (\<lambda>_. {}), s_conns = (\<lambda>_. None),
                 s_inbox = (\<lambda>_. []), s_out = (\<lambda>_. [])\<rparr>"

inductive gw_reach :: "(string \<Rightarrow> jwt_result) \<Rightarrow> db \<Rightarrow> sys \<Rightarrow> bool" for jwt d0 where
  init: "gw_reach jwt d0 (init_sys d0)"
| step: "gw_reach jwt d0 s \<Longrightarrow> sys_step jwt s s' \<Longrightarrow> gw_reach jwt d0 s'"

section \<open>The invariant of the channel layer\<close>

text \<open>
  Per channel: a channel without a consumer has no events, no frames and
  no group; the groups a consumer's channel is in are exactly its room's
  group, and only while it is authenticated, past \<open>group_add\<close> and not yet
  disconnected; a consumer whose token did not verify is idle or stopped,
  was never accepted, and can only be told that its socket closed.
\<close>

definition in_group :: "conn \<Rightarrow> bool" where
  "in_group c \<longleftrightarrow> c_auth c \<and> c_pc c \<noteq> Connect_group_add \<and> c_pc c \<noteq> Stopped"

definition memb :: "sys \<Rightarrow> channel \<Rightarrow> string \<Rightarrow> bool" where
  "memb s ch = (\<lambda>gr. ch \<in> s_groups s gr)"

definition chan_ok :: "conn option \<Rightarrow> event list \<Rightarrow> frame list \<Rightarrow> (string \<Rightarrow> bool) \<Rightarrow> bool" where
  "chan_ok co inb out mem \<longleftrightarrow>
     (case co of
        None \<Rightarrow> inb = [] \<and> out = [] \<and> mem = (\<lambda>_. False)
      | Some c \<Rightarrow>
          mem = (\<lambda>gr. gr = group_name (c_room c) \<and> in_group c) \<and>
          (\<not> c_auth c \<longrightarrow> (c_pc c = Idle \<or> c_pc c = Stopped) \<and> Accepted \<notin> set out \<and>
             set inb \<subseteq> {WsDisconnect}))"

definition gw_inv :: "sys \<Rightarrow> bool" where
  "gw_inv s \<longleftrightarrow> (\<forall>ch. chan_ok (s_conns s ch) (s_inbox s ch) (s_out s ch) (memb s ch))"

text \<open>The consumer runs \<open>n\<close> steps of its own, with no other step between.\<close>

fun run_conn :: "nat \<Rightarrow> channel \<Rightarrow> sys \<Rightarrow> sys option" where
  "run_conn 0 ch s = Some s"
| "run_conn (Suc n) ch s = (case conn_step ch s of None \<Rightarrow> None | Some s' \<Rightarrow> run_conn n ch s')"

text \<open>A schedule: the steps of the system, one after the other, each taken
  only where \<open>sys_step\<close> allows it; \<open>None\<close> when a step is not enabled.\<close>

datatype action =
    AOpen channel room_code string
  | ASend channel wire_in
  | AClose channel
  | ARun channel
  | ACreate uid "room_code list"

fun exec :: "(string \<Rightarrow> jwt_result) \<Rightarrow> action list \<Rightarrow> sys \<Rightarrow> sys option" where
  "exec jwt [] s = Some s"
| "exec jwt (AOpen ch rc qs # as) s =
     (if s_conns s ch = None then exec jwt as (connect jwt ch rc qs s) else None)"
| "exec jwt (ASend ch w # as) s =
     (if can_send ch s then exec jwt as (push_event ch (WsReceive w) s) else None)"
| "exec jwt (AClose ch # as) s =
     (case s_conns s ch of
        Some c \<Rightarrow> if c_open c then exec jwt as (client_close ch s) else None
      | None \<Rightarrow> None)"
| "exec jwt (ARun ch # as) s =
     (case conn_step ch s of None \<Rightarrow> None | Some s' \<Rightarrow> exec jwt as s')"
| "exec jwt (ACreate u draws # as) s =
     (case create_game u draws (s_db s) of
        None \<Rightarrow> None
      | Some (d', r) \<Rightarrow> exec jwt as (s\<lparr>s_db := d'\<rparr>))"

text \<open>
  The work left to a consumer: the \<open>await\<close>s its current handler still has
  to pass (a broadcast or a close counted with the event it queues for the
  consumer itself), and a bound for each queued event.
\<close>

fun pc_weight :: "pc \<Rightarrow> nat" where
  "pc_weight Idle = 0"
| "pc_weight Stopped = 0"
| "pc_weight (Connect_send m) = 1"
| "pc_weight Connect_get_state = 2"
| "pc_weight (Connect_broadcast m) = 4"
| "pc_weight Connect_add_player = 5"
| "pc_weight Connect_accept = 6"
| "pc_weight Connect_group_add = 7"
| "pc_weight (Receive_move p) = 3"
| "pc_weight (Receive_broadcast m) = 2"

fun ev_weight :: "event \<Rightarrow> nat" where
  "ev_weight (WsReceive w) = 4"
| "ev_weight (GameMessage m) = 1"
| "ev_weight WsDisconnect = 1"

definition conn_weight :: "sys \<Rightarrow> channel \<Rightarrow> nat" where
  "conn_weight s ch =
     (case s_conns s ch of None \<Rightarrow> 0 | Some c \<Rightarrow> pc_weight (c_pc c) + sum_list (map ev_weight (s_inbox s ch)))"

section \<open>Lemmas on the query string\<close>

lemma py_split_ne: "py_split c xs \<noteq> []"
  by (induction xs) (auto simp: Let_def)

lemma py_split_no_sep: "c \<notin> set w \<Longrightarrow> py_split c w = [w]"
  by (induction w) (auto simp: Let_def)

lemma py_split_append_sep: "c \<notin> set w \<Longrightarrow> py_split c (w @ c # r) = w # py_split c r"
  by (induction w) (auto simp: Let_def)

lemma py_split_join:
  "ws \<noteq> [] \<Longrightarrow> list_all (\<lambda>w. c \<notin> set w) ws \<Longrightarrow> py_split c (py_join c ws) = ws"
  by (induction c ws rule: py_join.induct) (auto simp: py_split_no_sep py_split_append_sep)

lemma dict_of_pairs_split:
  "list_all (\<lambda>(k, v). CHR ''='' \<notin> set k \<and> CHR ''='' \<notin> set v) kvs \<Longrightarrow>
   dict_of_pairs (map (py_split CHR ''='') (map (\<lambda>(k, v). k @ ''='' @ v) kvs)) = Inr kvs"
  by (induction kvs) (auto simp: py_split_append_sep py_split_no_sep)

section \<open>Lemmas on the channel layer\<close>

lemmas sys_ops = group_add_def group_discard_def group_send_def send_def set_conn_def set_pc_def
  push_event_def

lemma sys_proj [simp]:
  "s_conns (group_add gr ch s) = s_conns s" "s_inbox (group_add gr ch s) = s_inbox s"
  "s_out (group_add gr ch s) = s_out s" "s_db (group_add gr ch s) = s_db s"
  "s_conns (group_discard gr ch s) = s_conns s" "s_inbox (group_discard gr ch s) = s_inbox s"
  "s_out (group_discard gr ch s) = s_out s" "s_db (group_discard gr ch s) = s_db s"
  "s_conns (group_send gr m s) = s_conns s" "s_out (group_send gr m s) = s_out s"
  "s_db (group_send gr m s) = s_db s" "s_groups (group_send gr m s) = s_groups s"
  "s_conns (send ch f s) = s_conns s" "s_inbox (send ch f s) = s_inbox s"
  "s_db (send ch f s) = s_db s" "s_groups (send ch f s) = s_groups s"
  "s_inbox (set_conn ch g s) = s_inbox s" "s_out (set_conn ch g s) = s_out s"
  "s_db (set_conn ch g s) = s_db s" "s_groups (set_conn ch g s) = s_groups s"
  "s_conns (push_event ch e s) = s_conns s" "s_out (push_event ch e s) = s_out s"
  "s_db (push_event ch e s) = s_db s" "s_groups (push_event ch e s) = s_groups s"
  "s_out (send ch f s) = (s_out s)(ch := s_out s ch @ [f])"
  "s_conns (set_conn ch g s) = (s_conns s)(ch := map_option g (s_conns s ch))"
  "s_inbox (push_event ch e s) = (s_inbox s)(ch := s_inbox s ch @ [e])"
  "s_groups (group_add gr ch s) = (s_groups s)(gr := insert ch (s_groups s gr))"
  "s_groups (group_discard gr ch s) = (s_groups s)(gr := s_groups s gr - {ch})"
  "s_inbox (group_send gr m s) =
     (\<lambda>c. if c \<in> s_groups s gr then s_inbox s c @ [GameMessage m] else s_inbox s c)"
  by (simp_all add: sys_ops)

lemma memb_ops:
  "memb (group_add gr ch s) x = (if x = ch then (memb s x)(gr := True) else memb s x)"
  "memb (group_discard gr ch s) x = (if x = ch then (memb s x)(gr := False) else memb s x)"
  "memb (group_send gr m s) = memb s" "memb (send ch f s) = memb s" "memb (set_conn ch g s) = memb s"
  "memb (set_pc ch p s) = memb s" "memb (push_event ch e s) = memb s" "memb (s\<lparr>s_db := d\<rparr>) = memb s"
  "memb (s\<lparr>s_inbox := ib\<rparr>) = memb s" "memb (s\<lparr>s_out := ob\<rparr>) = memb s"
  "memb (s\<lparr>s_conns := cs\<rparr>) = memb s"
  by (auto simp: memb_def sys_ops fun_eq_iff)

lemma gw_invI:
  "(\<And>x. chan_ok (s_conns s x) (s_inbox s x) (s_out s x) (memb s x)) \<Longrightarrow> gw_inv s"
  by (simp add: gw_inv_def)

lemma gw_invD:
  "gw_inv s \<Longrightarrow> chan_ok (s_conns s x) (s_inbox s x) (s_out s x) (memb s x)"
  by (simp add: gw_inv_def)

text \<open>An operation that touches only channel ch keeps the invariant when it keeps it at ch.\<close>

lemma gw_inv_local:
  assumes inv: "gw_inv s"
    and other: "\<And>x. x \<noteq> ch \<Longrightarrow> s_conns s' x = s_conns s x \<and> s_inbox s' x = s_inbox s x \<and>
                       s_out s' x = s_out s x \<and> memb s' x = memb s x"
    and here: "chan_ok (s_conns s ch) (s_inbox s ch) (s_out s ch) (memb s ch) \<Longrightarrow>
               chan_ok (s_conns s' ch) (s_inbox s' ch) (s_out s' ch) (memb s' ch)"
  shows "gw_inv s'"
proof (rule gw_invI)
  fix x
  show "chan_ok (s_conns s' x) (s_inbox s' x) (s_out s' x) (memb s' x)"
  proof (cases "x = ch")
    case True
    with here gw_invD [OF inv] show ?thesis by simp
  next
    case False
    with other [OF False] gw_invD [OF inv, of x] show ?thesis by simp
  qed
qed

lemma chan_ok_group_send:
  "chan_ok co inb out mem \<Longrightarrow> mem gr \<Longrightarrow> chan_ok co (inb @ [GameMessage m]) out mem"
  by (auto simp: chan_ok_def in_group_def split: option.splits)

lemma gw_inv_group_send: "gw_inv s \<Longrightarrow> gw_inv (group_send gr m s)"
proof (rule gw_invI)
  fix x
  assume "gw_inv s"
  from gw_invD [OF this, of x] show "chan_ok (s_conns (group_send gr m s) x) (s_inbox (group_send gr m s) x)
            (s_out (group_send gr m s) x) (memb (group_send gr m s) x)"
    by (auto simp: group_send_def memb_def intro: chan_ok_group_send [unfolded memb_def])
qed


lemma gw_inv_db [simp]: "gw_inv (s\<lparr>s_db := d\<rparr>) = gw_inv s"
  by (simp add: gw_inv_def memb_def)

lemma gw_inv_set_conn:
  assumes inv: "gw_inv s" and c: "s_conns s ch = Some c"
    and room: "c_room (f c) = c_room c" and grp: "in_group (f c) = in_group c"
    and auth: "\<not> c_auth (f c) \<Longrightarrow>
                 \<not> c_auth c \<and> (c_pc (f c) = c_pc c \<or> c_pc (f c) = Idle \<or> c_pc (f c) = Stopped)"
  shows "gw_inv (set_conn ch f s)"
proof (rule gw_inv_local [OF inv])
  fix x assume "x \<noteq> ch"
  then show "s_conns (set_conn ch f s) x = s_conns s x \<and> s_inbox (set_conn ch f s) x = s_inbox s x \<and>
             s_out (set_conn ch f s) x = s_out s x \<and> memb (set_conn ch f s) x = memb s x"
    by (simp add: set_conn_def memb_ops)
next
  assume "chan_ok (s_conns s ch) (s_inbox s ch) (s_out s ch) (memb s ch)"
  with c room grp auth show "chan_ok (s_conns (set_conn ch f s) ch) (s_inbox (set_conn ch f s) ch)
            (s_out (set_conn ch f s) ch) (memb (set_conn ch f s) ch)"
    by (auto simp: chan_ok_def set_conn_def memb_ops)
qed

lemma gw_inv_set_pc:
  assumes "gw_inv s" and "s_conns s ch = Some c"
    and "in_group (c\<lparr>c_pc := p\<rparr>) = in_group c" and "\<not> c_auth c \<Longrightarrow> p = Idle \<or> p = Stopped"
  shows "gw_inv (set_pc ch p s)"
  unfolding set_pc_def using assms by (intro gw_inv_set_conn) auto

lemma gw_inv_send:
  assumes inv: "gw_inv s" and c: "s_conns s ch = Some c" and acc: "f = Accepted \<Longrightarrow> c_auth c"
  shows "gw_inv (send ch f s)"
proof (rule gw_inv_local [OF inv])
  fix x assume "x \<noteq> ch"
  then show "s_conns (send ch f s) x = s_conns s x \<and> s_inbox (send ch f s) x = s_inbox s x \<and>
             s_out (send ch f s) x = s_out s x \<and> memb (send ch f s) x = memb s x"
    by (simp add: send_def memb_ops)
next
  assume "chan_ok (s_conns s ch) (s_inbox s ch) (s_out s ch) (memb s ch)"
  with c acc show "chan_ok (s_conns (send ch f s) ch) (s_inbox (send ch f s) ch)
            (s_out (send ch f s) ch) (memb (send ch f s) ch)"
    by (auto simp: chan_ok_def send_def memb_ops)
qed

lemma gw_inv_push:
  assumes inv: "gw_inv s" and c: "s_conns s ch = Some c" and ev: "\<not> c_auth c \<Longrightarrow> e = WsDisconnect"
  shows "gw_inv (push_event ch e s)"
proof (rule gw_inv_local [OF inv])
  fix x assume "x \<noteq> ch"
  then show "s_conns (push_event ch e s) x = s_conns s x \<and> s_inbox (push_event ch e s) x = s_inbox s x \<and>
             s_out (push_event ch e s) x = s_out s x \<and> memb (push_event ch e s) x = memb s x"
    by (simp add: push_event_def memb_ops)
next
  assume "chan_ok (s_conns s ch) (s_inbox s ch) (s_out s ch) (memb s ch)"
  with c ev show "chan_ok (s_conns (push_event ch e s) ch) (s_inbox (push_event ch e s) ch)
            (s_out (push_event ch e s) ch) (memb (push_event ch e s) ch)"
    by (auto simp: chan_ok_def push_event_def memb_ops)
qed

lemma gw_inv_pop:
  assumes inv: "gw_inv s" and q: "s_inbox s ch = e # es"
  shows "gw_inv (s\<lparr>s_inbox := (s_inbox s)(ch := es)\<rparr>)"
proof (rule gw_inv_local [OF inv])
  fix x assume "x \<noteq> ch"
  then show "s_conns (s\<lparr>s_inbox := (s_inbox s)(ch := es)\<rparr>) x = s_conns s x \<and>
             s_inbox (s\<lparr>s_inbox := (s_inbox s)(ch := es)\<rparr>) x = s_inbox s x \<and>
             s_out (s\<lparr>s_inbox := (s_inbox s)(ch := es)\<rparr>) x = s_out s x \<and>
             memb (s\<lparr>s_inbox := (s_inbox s)(ch := es)\<rparr>) x = memb s x"
    by (simp add: memb_ops)
next
  assume "chan_ok (s_conns s ch) (s_inbox s ch) (s_out s ch) (memb s ch)"
  with q show "chan_ok (s_conns (s\<lparr>s_inbox := (s_inbox s)(ch := es)\<rparr>) ch)
     (s_inbox (s\<lparr>s_inbox := (s_inbox s)(ch := es)\<rparr>) ch) (s_out (s\<lparr>s_inbox := (s_inbox s)(ch := es)\<rparr>) ch)
     (memb (s\<lparr>s_inbox := (s_inbox s)(ch := es)\<rparr>) ch)"
    by (auto simp: chan_ok_def memb_ops split: option.splits)
qed


lemma gw_inv_join:
  assumes inv: "gw_inv s" and c: "s_conns s ch = Some c" and pc: "c_pc c = Connect_group_add"
  shows "gw_inv (set_pc ch Connect_accept (group_add (group_name (c_room c)) ch s))"
    (is "gw_inv ?s'")
proof (rule gw_inv_local [OF inv])
  fix x assume "x \<noteq> ch"
  then show "s_conns ?s' x = s_conns s x \<and> s_inbox ?s' x = s_inbox s x \<and>
             s_out ?s' x = s_out s x \<and> memb ?s' x = memb s x"
    by (simp add: set_pc_def memb_ops)
next
  assume "chan_ok (s_conns s ch) (s_inbox s ch) (s_out s ch) (memb s ch)"
  with c pc show "chan_ok (s_conns ?s' ch) (s_inbox ?s' ch) (s_out ?s' ch) (memb ?s' ch)"
    by (auto simp: chan_ok_def in_group_def memb_ops fun_eq_iff set_pc_def)
qed

lemma gw_inv_disconnect:
  assumes inv: "gw_inv s" and c: "s_conns s ch = Some c"
  shows "gw_inv (disconnect ch c s)" (is "gw_inv ?s'")
proof (rule gw_inv_local [OF inv])
  fix x assume "x \<noteq> ch"
  then show "s_conns ?s' x = s_conns s x \<and> s_inbox ?s' x = s_inbox s x \<and>
             s_out ?s' x = s_out s x \<and> memb ?s' x = memb s x"
    by (simp add: disconnect_def set_pc_def memb_ops)
next
  assume "chan_ok (s_conns s ch) (s_inbox s ch) (s_out s ch) (memb s ch)"
  with c show "chan_ok (s_conns ?s' ch) (s_inbox ?s' ch) (s_out ?s' ch) (memb ?s' ch)"
    by (auto simp: disconnect_def chan_ok_def in_group_def memb_ops fun_eq_iff set_pc_def)
qed

lemma gw_inv_close:
  assumes "gw_inv s" and "s_conns s ch = Some c"
  shows "gw_inv (close ch s)"
proof -
  from assms have "gw_inv (push_event ch WsDisconnect (send ch Closed s))"
    by (auto intro!: gw_inv_push gw_inv_send)
  moreover have "s_conns (push_event ch WsDisconnect (send ch Closed s)) ch = Some c"
    using assms(2) by simp
  ultimately have "gw_inv (set_conn ch (\<lambda>c. c\<lparr>c_open := False\<rparr>) (push_event ch WsDisconnect (send ch Closed s)))"
    by (rule gw_inv_set_conn) (simp_all add: in_group_def)
  with assms show ?thesis by (simp add: close_def)
qed

lemma gw_inv_dispatch:
  assumes inv: "gw_inv s" and c: "s_conns s ch = Some c" and pc: "c_pc c = Idle"
    and ev: "\<not> c_auth c \<Longrightarrow> e = WsDisconnect"
  shows "gw_inv (dispatch ch c e s)"
proof (cases e)
  case (WsReceive w)
  with ev have auth: "c_auth c" by auto
  have snd: "gw_inv (send ch (Sent m) s)" for m
    using inv c by (rule gw_inv_send) simp
  have "gw_inv (set_pc ch (Receive_move p) s)" for p
    using inv c by (rule gw_inv_set_pc) (simp_all add: in_group_def pc auth)
  with snd inv have "gw_inv (receive ch w s)"
    by (simp add: receive_def split: wire_in.splits pyval.splits)
  with WsReceive show ?thesis by (simp add: dispatch_def)
next
  case (GameMessage m)
  with inv c show ?thesis by (auto simp: dispatch_def game_message_def intro!: gw_inv_send)
next
  case WsDisconnect
  with inv c show ?thesis by (simp add: dispatch_def gw_inv_disconnect)
qed

lemma conn_step_cases:
  assumes "conn_step ch s = Some s'"
  obtains c where "s_conns s ch = Some c" and "c_pc c = Connect_group_add"
      and "s' = set_pc ch Connect_accept (group_add (group_name (c_room c)) ch s)"
  | c where "s_conns s ch = Some c" and "c_pc c = Connect_accept"
      and "s' = set_pc ch Connect_add_player (send ch Accepted s)"
  | c d' m where "s_conns s ch = Some c" and "c_pc c = Connect_add_player"
      and "run_add_player c (s_db s) = (d', m)"
      and "s' = set_pc ch (case m of None \<Rightarrow> Connect_get_state | Some e \<Rightarrow> Connect_broadcast e) (s\<lparr>s_db := d'\<rparr>)"
  | c m where "s_conns s ch = Some c" and "c_pc c = Connect_broadcast m"
      and "s' = set_pc ch Connect_get_state (group_send (group_name (c_room c)) m s)"
  | c e where "s_conns s ch = Some c" and "c_pc c = Connect_get_state"
      and "get_game_state (c_room c) (s_db s) = Inl e" and "s' = set_pc ch Idle (close ch s)"
  | c where "s_conns s ch = Some c" and "c_pc c = Connect_get_state"
      and "get_game_state (c_room c) (s_db s) = Inr None" and "s' = set_pc ch Idle s"
  | c m where "s_conns s ch = Some c" and "c_pc c = Connect_get_state"
      and "get_game_state (c_room c) (s_db s) = Inr (Some m)" and "s' = set_pc ch (Connect_send m) s"
  | c m where "s_conns s ch = Some c" and "c_pc c = Connect_send m"
      and "s' = set_pc ch Idle (send ch (Sent m) s)"
  | c p d' m where "s_conns s ch = Some c" and "c_pc c = Receive_move p"
      and "run_make_move c p (s_db s) = (d', m)"
      and "s' = set_pc ch (case m of None \<Rightarrow> Idle | Some e \<Rightarrow> Receive_broadcast e) (s\<lparr>s_db := d'\<rparr>)"
  | c m where "s_conns s ch = Some c" and "c_pc c = Receive_broadcast m"
      and "s' = set_pc ch Idle (group_send (group_name (c_room c)) m s)"
  | c e es where "s_conns s ch = Some c" and "c_pc c = Idle" and "s_inbox s ch = e # es"
      and "s' = dispatch ch c e (s\<lparr>s_inbox := (s_inbox s)(ch := es)\<rparr>)"
  using assms
  by (cases "s_conns s ch"; cases "c_pc (the (s_conns s ch))")
     (auto simp: conn_step_def Let_def split: prod.splits sum.splits option.splits list.splits)


lemma close_conn:
  assumes "s_conns s ch = Some c"
  obtains c' where "s_conns (close ch s) ch = Some c'" "c_auth c' = c_auth c" "c_pc c' = c_pc c"
    "c_room c' = c_room c" "c_user c' = c_user c"
  using assms by (cases "c_open c") (auto simp: close_def)

lemma gw_inv_conn_step:
  assumes inv: "gw_inv s" and st: "conn_step ch s = Some s'"
  shows "gw_inv s'"
  using st
proof (cases rule: conn_step_cases)
  case (1 c)
  with inv show ?thesis by (simp add: gw_inv_join)
next
  case (2 c)
  with gw_invD [OF inv, of ch] have "c_auth c" by (auto simp: chan_ok_def)
  with 2 inv show ?thesis by (auto intro!: gw_inv_set_pc gw_inv_send simp: in_group_def)
next
  case (3 c d' m)
  with gw_invD [OF inv, of ch] have "c_auth c" by (auto simp: chan_ok_def)
  with 3 inv show ?thesis by (auto intro!: gw_inv_set_pc simp: in_group_def split: option.split)
next
  case (4 c m)
  with gw_invD [OF inv, of ch] have "c_auth c" by (auto simp: chan_ok_def)
  with 4 inv show ?thesis by (auto intro!: gw_inv_set_pc gw_inv_group_send simp: in_group_def)
next
  case (5 c e)
  with gw_invD [OF inv, of ch] have "c_auth c" by (auto simp: chan_ok_def)
  moreover from 5 obtain c' where "s_conns (close ch s) ch = Some c'" "c_auth c' = c_auth c"
    "c_pc c' = c_pc c" by (metis close_conn)
  moreover from inv 5 have "gw_inv (close ch s)" by (blast intro: gw_inv_close)
  ultimately show ?thesis using 5 by (auto intro!: gw_inv_set_pc simp: in_group_def)
next
  case (6 c)
  with gw_invD [OF inv, of ch] have "c_auth c" by (auto simp: chan_ok_def)
  with 6 inv show ?thesis by (auto intro!: gw_inv_set_pc simp: in_group_def)
next
  case (7 c m)
  with gw_invD [OF inv, of ch] have "c_auth c" by (auto simp: chan_ok_def)
  with 7 inv show ?thesis by (auto intro!: gw_inv_set_pc simp: in_group_def)
next
  case (8 c m)
  with gw_invD [OF inv, of ch] have "c_auth c" by (auto simp: chan_ok_def)
  with 8 inv show ?thesis by (auto intro!: gw_inv_set_pc gw_inv_send simp: in_group_def)
next
  case (9 c p d' m)
  with gw_invD [OF inv, of ch] have "c_auth c" by (auto simp: chan_ok_def)
  with 9 inv show ?thesis by (auto intro!: gw_inv_set_pc simp: in_group_def split: option.split)
next
  case (10 c m)
  with gw_invD [OF inv, of ch] have "c_auth c" by (auto simp: chan_ok_def)
  with 10 inv show ?thesis by (auto intro!: gw_inv_set_pc gw_inv_group_send simp: in_group_def)
next
  case (11 c e es)
  from 11 gw_invD [OF inv, of ch] have ev: "\<not> c_auth c \<Longrightarrow> e = WsDisconnect"
    by (auto simp: chan_ok_def)
  from inv 11 have "gw_inv (s\<lparr>s_inbox := (s_inbox s)(ch := es)\<rparr>)" by (blast intro: gw_inv_pop)
  with 11 ev show ?thesis by (auto intro: gw_inv_dispatch)
qed


lemma gw_inv_new_conn:
  assumes inv: "gw_inv s" and fresh: "s_conns s ch = None"
  shows "gw_inv (s\<lparr>s_conns := (s_conns s)(ch \<mapsto>
                 \<lparr>c_room = rc, c_user = None, c_auth = False, c_pc = Idle, c_open = True\<rparr>)\<rparr>)"
    (is "gw_inv ?s1")
proof (rule gw_inv_local [OF inv])
  fix x assume "x \<noteq> ch"
  then show "s_conns ?s1 x = s_conns s x \<and> s_inbox ?s1 x = s_inbox s x \<and>
             s_out ?s1 x = s_out s x \<and> memb ?s1 x = memb s x"
    by (simp add: memb_ops)
next
  assume "chan_ok (s_conns s ch) (s_inbox s ch) (s_out s ch) (memb s ch)"
  with fresh show "chan_ok (s_conns ?s1 ch) (s_inbox ?s1 ch) (s_out ?s1 ch) (memb ?s1 ch)"
    by (simp add: chan_ok_def memb_ops in_group_def)
qed

lemma gw_inv_connect:
  assumes inv: "gw_inv s" and fresh: "s_conns s ch = None"
  shows "gw_inv (connect jwt ch rc qs s)"
proof -
  define s1 where "s1 = s\<lparr>s_conns := (s_conns s)(ch \<mapsto>
                 \<lparr>c_room = rc, c_user = None, c_auth = False, c_pc = Idle, c_open = True\<rparr>)\<rparr>"
  have i1: "gw_inv s1" unfolding s1_def using inv fresh by (rule gw_inv_new_conn)
  have c1: "s_conns s1 ch = Some \<lparr>c_room = rc, c_user = None, c_auth = False, c_pc = Idle, c_open = True\<rparr>"
    by (simp add: s1_def)
  have "gw_inv (send ch Aborted s1)" using i1 c1 by (rule gw_inv_send) simp
  moreover have "s_conns (send ch Aborted s1) ch = s_conns s1 ch" by simp
  ultimately have "gw_inv (abort ch s1)"
    unfolding abort_def c1 by (rule gw_inv_set_conn) (simp_all add: in_group_def)
  moreover have "gw_inv (close ch s1)" using i1 c1 by (rule gw_inv_close)
  moreover have "gw_inv (set_conn ch (\<lambda>c. c\<lparr>c_user := uid_of v, c_auth := True, c_pc := Connect_group_add\<rparr>) s1)"
    for v using i1 c1 by (rule gw_inv_set_conn) (simp_all add: in_group_def)
  ultimately show ?thesis
    by (simp add: connect_def s1_def [symmetric] split: sum.split jwt_result.split option.split)
qed

lemma gw_inv_sys_step: "sys_step jwt s s' \<Longrightarrow> gw_inv s \<Longrightarrow> gw_inv s'"
proof (induction rule: sys_step.induct)
  case (open_socket s ch rc qs)
  then show ?case by (rule gw_inv_connect [rotated])
next
  case (client_send ch s w)
  then obtain c where c: "s_conns s ch = Some c" and acc: "Accepted \<in> set (s_out s ch)"
    by (auto simp: can_send_def split: option.splits)
  with gw_invD [OF client_send.prems, of ch] have "c_auth c" by (auto simp: chan_ok_def)
  with client_send.prems c show ?case by (auto intro: gw_inv_push)
next
  case (client_closes s ch c)
  then have "gw_inv (push_event ch WsDisconnect s)" by (blast intro: gw_inv_push)
  moreover from client_closes have "s_conns (push_event ch WsDisconnect s) ch = Some c" by simp
  ultimately show ?case unfolding client_close_def by (rule gw_inv_set_conn) (simp_all add: in_group_def)
next
  case (run ch s s')
  then show ?case by (blast intro: gw_inv_conn_step)
next
  case (http_create u draws s d' r)
  then show ?case by simp
qed

lemma gw_inv_init: "gw_inv (init_sys d)"
  by (simp add: gw_inv_def init_sys_def chan_ok_def memb_def)

lemma gw_reach_inv: "gw_reach jwt d0 s \<Longrightarrow> gw_inv s"
  by (induction rule: gw_reach.induct) (auto intro: gw_inv_init gw_inv_sys_step)

section \<open>Lemmas on the handlers\<close>

lemma py_split_set: "w \<in> set (py_split c xs) \<Longrightarrow> set w \<subseteq> set xs"
proof (induction xs arbitrary: w)
  case Nil
  then show ?case by simp
next
  case (Cons x xs)
  obtain v vs where vs: "py_split c xs = v # vs" using py_split_ne by (cases "py_split c xs") auto
  from Cons.prems Cons.IH show ?case by (fastforce simp: vs Let_def split: if_splits)
qed

lemma query_token_no_eq:
  assumes "CHR ''='' \<notin> set qs"
  shows "query_token qs = Inl ValueError"
proof -
  obtain p ps where ps: "py_split CHR ''&'' qs = p # ps" using py_split_ne by (cases "py_split CHR ''&'' qs") auto
  then have "set p \<subseteq> set qs" by (intro py_split_set [of p "CHR ''&''"]) simp
  with assms have "py_split CHR ''='' p = [p]" by (intro py_split_no_sep) auto
  then show ?thesis by (simp add: query_token_def ps)
qed

lemma conn_step_simps:
  "s_conns s ch = Some c \<Longrightarrow> c_pc c = Connect_group_add \<Longrightarrow>
   conn_step ch s = Some (set_pc ch Connect_accept (group_add (group_name (c_room c)) ch s))"
  "s_conns s ch = Some c \<Longrightarrow> c_pc c = Connect_accept \<Longrightarrow>
   conn_step ch s = Some (set_pc ch Connect_add_player (send ch Accepted s))"
  "s_conns s ch = Some c \<Longrightarrow> c_pc c = Connect_add_player \<Longrightarrow>
   conn_step ch s = (case run_add_player c (s_db s) of (d', m) \<Rightarrow>
     Some (set_pc ch (case m of None \<Rightarrow> Connect_get_state | Some e \<Rightarrow> Connect_broadcast e) (s\<lparr>s_db := d'\<rparr>)))"
  "s_conns s ch = Some c \<Longrightarrow> c_pc c = Connect_broadcast m \<Longrightarrow>
   conn_step ch s = Some (set_pc ch Connect_get_state (group_send (group_name (c_room c)) m s))"
  "s_conns s ch = Some c \<Longrightarrow> c_pc c = Connect_get_state \<Longrightarrow>
   conn_step ch s = (case get_game_state (c_room c) (s_db s) of
                  Inl _ \<Rightarrow> Some (set_pc ch Idle (close ch s))
                | Inr None \<Rightarrow> Some (set_pc ch Idle s)
                | Inr (Some m) \<Rightarrow> Some (set_pc ch (Connect_send m) s))"
  "s_conns s ch = Some c \<Longrightarrow> c_pc c = Connect_send m \<Longrightarrow>
   conn_step ch s = Some (set_pc ch Idle (send ch (Sent m) s))"
  "s_conns s ch = Some c \<Longrightarrow> c_pc c = Receive_move p \<Longrightarrow>
   conn_step ch s = (case run_make_move c p (s_db s) of (d', m) \<Rightarrow>
     Some (set_pc ch (case m of None \<Rightarrow> Idle | Some e \<Rightarrow> Receive_broadcast e) (s\<lparr>s_db := d'\<rparr>)))"
  "s_conns s ch = Some c \<Longrightarrow> c_pc c = Receive_broadcast m \<Longrightarrow>
   conn_step ch s = Some (set_pc ch Idle (group_send (group_name (c_room c)) m s))"
  "s_conns s ch = Some c \<Longrightarrow> c_pc c = Idle \<Longrightarrow> s_inbox s ch = e # es \<Longrightarrow>
   conn_step ch s = Some (dispatch ch c e (s\<lparr>s_inbox := (s_inbox s)(ch := es)\<rparr>))"
  by (simp_all add: conn_step_def)

lemma set_pc_proj [simp]:
  "s_conns (set_pc ch p s) = (s_conns s)(ch := map_option (\<lambda>c. c\<lparr>c_pc := p\<rparr>) (s_conns s ch))"
  "s_inbox (set_pc ch p s) = s_inbox s" "s_out (set_pc ch p s) = s_out s"
  "s_db (set_pc ch p s) = s_db s" "s_groups (set_pc ch p s) = s_groups s"
  by (simp_all add: set_pc_def)

lemma run_pc [simp]:
  "run_add_player (c\<lparr>c_pc := p\<rparr>) = run_add_player c" "run_make_move (c\<lparr>c_pc := p\<rparr>) = run_make_move c"
  "run_add_player (c\<lparr>c_open := b\<rparr>) = run_add_player c" "run_make_move (c\<lparr>c_open := b\<rparr>) = run_make_move c"
  by (simp_all add: run_add_player_def run_make_move_def fun_eq_iff split: option.split)

lemma group_name_inj [simp]: "group_name a = group_name b \<longleftrightarrow> a = b"
  by (simp add: group_name_def)

lemma gw_inv_members:
  "gw_inv s \<Longrightarrow>
   x \<in> s_groups s gr \<longleftrightarrow> (\<exists>c. s_conns s x = Some c \<and> gr = group_name (c_room c) \<and> in_group c)"
  by (drule gw_invD [of s x]) (auto simp: chan_ok_def memb_def fun_eq_iff split: option.splits)

lemma gw_inv_unauth:
  "gw_inv s \<Longrightarrow> s_conns s ch = Some c \<Longrightarrow> \<not> c_auth c \<Longrightarrow>
   (c_pc c = Idle \<or> c_pc c = Stopped) \<and> Accepted \<notin> set (s_out s ch) \<and>
   set (s_inbox s ch) \<subseteq> {WsDisconnect} \<and> (\<forall>gr. ch \<notin> s_groups s gr)"
  by (drule gw_invD [of s ch]) (auto simp: chan_ok_def memb_def fun_eq_iff in_group_def)

lemma exec_reach: "exec jwt as s = Some s' \<Longrightarrow> gw_reach jwt d0 s \<Longrightarrow> gw_reach jwt d0 s'"
proof (induction jwt as s rule: exec.induct)
  case (2 jwt ch rc qs as s)
  then show ?case by (auto intro: gw_reach.step sys_step.open_socket split: if_splits)
next
  case (3 jwt ch w as s)
  then show ?case by (auto intro: gw_reach.step sys_step.client_send split: if_splits)
next
  case (4 jwt ch as s)
  then show ?case by (auto intro: gw_reach.step sys_step.client_closes split: if_splits option.splits)
next
  case (5 jwt ch as s)
  then show ?case by (auto intro: gw_reach.step sys_step.run split: option.splits)
next
  case (6 jwt u draws as s)
  then obtain d' r where cg: "create_game u draws (s_db s) = Some (d', r)"
    and ex: "exec jwt as (s\<lparr>s_db := d'\<rparr>) = Some s'" by (auto split: option.splits)
  from 6(3) cg have "gw_reach jwt d0 (s\<lparr>s_db := d'\<rparr>)" by (blast intro: gw_reach.step sys_step.http_create)
  with 6(1) [OF cg refl] ex show ?case by blast
qed simp

lemma connect_db [simp]: "s_db (connect jwt ch rc qs s) = s_db s"
  by (simp add: connect_def abort_def close_def Let_def split: sum.split jwt_result.split option.split)

lemma dispatch_db [simp]: "s_db (dispatch ch c e s) = s_db s"
  by (simp add: dispatch_def receive_def game_message_def disconnect_def
           split: event.split wire_in.split pyval.split)

lemma sys_step_db:
  assumes "sys_step jwt s s'"
  shows "s_db s' = s_db s \<or> (\<exists>u draws r. create_game u draws (s_db s) = Some (s_db s', r)) \<or>
         (\<exists>rc u. s_db s' = fst (add_player_to_game rc u (s_db s))) \<or>
         (\<exists>rc u p. s_db s' = fst (make_move rc u p (s_db s)))"
  using assms
proof (cases rule: sys_step.cases)
  case (run ch)
  then show ?thesis
  proof (cases rule: conn_step_cases)
    case (3 c d' m)
    then show ?thesis
      by (cases "c_user c") (auto simp: run_add_player_def, metis fst_conv)
  next
    case (9 c p d' m)
    then show ?thesis
      by (cases "c_user c") (auto simp: run_make_move_def, metis fst_conv)
  next
    case (5 c e)
    then show ?thesis by (simp add: close_def split: option.split)
  qed simp_all
qed (auto simp: client_close_def)

lemma dispatch_local:
  "x \<noteq> ch \<Longrightarrow> s_conns (dispatch ch c e s) x = s_conns s x \<and> s_inbox (dispatch ch c e s) x = s_inbox s x \<and>
     s_out (dispatch ch c e s) x = s_out s x"
  by (simp add: dispatch_def receive_def game_message_def disconnect_def
           split: event.split wire_in.split pyval.split)

lemma dispatch_groups:
  "gr \<noteq> group_name (c_room c) \<Longrightarrow> s_groups (dispatch ch c e s) gr = s_groups s gr"
  by (simp add: dispatch_def receive_def game_message_def disconnect_def
           split: event.split wire_in.split pyval.split)

lemma close_local:
  "x \<noteq> ch \<Longrightarrow> s_conns (close ch s) x = s_conns s x \<and> s_inbox (close ch s) x = s_inbox s x \<and>
     s_out (close ch s) x = s_out s x"
  "s_groups (close ch s) = s_groups s" "s_db (close ch s) = s_db s"
  by (simp_all add: close_def split: option.split)

lemma run_add_player_other:
  "wf_db d \<Longrightarrow> rc \<noteq> c_room c \<Longrightarrow> get_game rc (fst (run_add_player c d)) = get_game rc d"
  by (cases "c_user c") (simp_all add: run_add_player_def add_player_other_room)

lemma run_make_move_other:
  "wf_db d \<Longrightarrow> rc \<noteq> c_room c \<Longrightarrow> get_game rc (fst (run_make_move c p d)) = get_game rc d"
  by (cases "c_user c") (simp_all add: run_make_move_def make_move_other_room)

lemma queue_weight_group_send:
  "sum_list (map ev_weight (s_inbox (group_send gr m s) ch)) \<le> Suc (sum_list (map ev_weight (s_inbox s ch)))"
  by simp

lemma queue_weight_close:
  "sum_list (map ev_weight (s_inbox (close ch s) ch)) \<le> Suc (sum_list (map ev_weight (s_inbox s ch)))"
  by (simp add: close_def split: option.split)

lemma close_conn_pc: "s_conns s ch = Some c \<Longrightarrow> map_option c_pc (s_conns (close ch s) ch) = Some (c_pc c)"
  by (simp add: close_def)

lemma dispatch_weight:
  assumes "s_conns s ch = Some c" and "c_pc c = Idle"
  shows "conn_weight (dispatch ch c e s) ch < ev_weight e + conn_weight s ch"
  using assms
  by (auto simp: conn_weight_def dispatch_def receive_def game_message_def disconnect_def set_pc_def
           split: event.split wire_in.split pyval.split)

lemma conn_step_weight:
  assumes "conn_step ch s = Some s'"
  shows "conn_weight s' ch < conn_weight s ch"
  using assms
proof (cases rule: conn_step_cases)
  case (5 c e)
  then show ?thesis using queue_weight_close [of ch s] close_conn_pc [of s ch c]
    by (auto simp: conn_weight_def set_pc_def split: option.splits)
next
  case (11 c e es)
  let ?s1 = "s\<lparr>s_inbox := (s_inbox s)(ch := es)\<rparr>"
  have "conn_weight (dispatch ch c e ?s1) ch < ev_weight e + conn_weight ?s1 ch"
    using 11 by (intro dispatch_weight) simp_all
  with 11 show ?thesis by (simp add: conn_weight_def)
qed (auto simp: conn_weight_def set_pc_def split: option.splits)

lemma conn_step_keeps_conn:
  "conn_step ch s = Some s' \<Longrightarrow> s_conns s ch \<noteq> None \<Longrightarrow> s_conns s' ch \<noteq> None"
proof (cases rule: conn_step_cases)
qed (auto simp: set_pc_def dispatch_def receive_def game_message_def disconnect_def close_def
          split: event.split wire_in.split pyval.split option.split)

lemma conn_step_None:
  "conn_step ch s = None \<Longrightarrow> s_conns s ch = Some c \<Longrightarrow> c_pc c = Stopped \<or> c_pc c = Idle \<and> s_inbox s ch = []"
  by (cases "c_pc c") (auto simp: conn_step_def Let_def split: prod.splits sum.splits option.splits list.splits)

section \<open>Properties\<close>

text \<open>
  C8.  No consumer gets stuck, and every event queued for it is handled: run
  on its own, a consumer reaches, within \<open>conn_weight\<close> steps, a state
  where it cannot move because it is idle with an empty queue or has
  stopped.  Each step of the handlers lowers the weight, including the
  broadcasts that queue a message for the consumer itself.
\<close>

theorem consumer_drains:
  assumes "s_conns s ch \<noteq> None"
  shows "\<exists>n s' c'. n \<le> conn_weight s ch \<and> run_conn n ch s = Some s' \<and> conn_step ch s' = None \<and>
     s_conns s' ch = Some c' \<and> (c_pc c' = Stopped \<or> c_pc c' = Idle \<and> s_inbox s' ch = [])"
  using assms
proof (induction "conn_weight s ch" arbitrary: s rule: less_induct)
  case less
  show ?case
  proof (cases "conn_step ch s")
    case None
    from less.prems obtain c where c: "s_conns s ch = Some c" by blast
    with None have "c_pc c = Stopped \<or> c_pc c = Idle \<and> s_inbox s ch = []" by (rule conn_step_None)
    with None c show ?thesis by (intro exI [of _ 0]) auto
  next
    case (Some s1)
    then have lt: "conn_weight s1 ch < conn_weight s ch" by (rule conn_step_weight)
    from Some less.prems have "s_conns s1 ch \<noteq> None" by (rule conn_step_keeps_conn)
    from less.hyps [OF lt this] obtain n s' c' where "n \<le> conn_weight s1 ch" "run_conn n ch s1 = Some s'"
      "conn_step ch s' = None" "s_conns s' ch = Some c'" "c_pc c' = Stopped \<or> c_pc c' = Idle \<and> s_inbox s' ch = []"
      by blast
    with Some lt show ?thesis by (intro exI [of _ "Suc n"]) auto
  qed
qed


text \<open>
  C4.  In every state the system reaches, the members of a room's channel
  group are exactly the consumers connected to that room whose token
  verified, whose \<open>connect\<close> has passed \<open>group_add\<close>, and whose
  \<open>disconnect\<close> has not yet run: no orphaned membership remains after a
  disconnect, and no unauthenticated socket is ever a send target.
\<close>

theorem gw_reach_members:
  assumes "gw_reach jwt d0 s"
  shows "x \<in> s_groups s gr \<longleftrightarrow>
     (\<exists>c. s_conns s x = Some c \<and> gr = group_name (c_room c) \<and> c_auth c \<and>
          c_pc c \<noteq> Connect_group_add \<and> c_pc c \<noteq> Stopped)"
  using gw_inv_members [OF gw_reach_inv [OF assms]] by (simp add: in_group_def)

text \<open>
  C18.  A connection whose token did not verify is never accepted, is in no
  group, and no step of its consumer changes the database or the groups.
\<close>

theorem gw_reach_unauthenticated:
  assumes reach: "gw_reach jwt d0 s" and c: "s_conns s ch = Some c" and na: "\<not> c_auth c"
  shows "Accepted \<notin> set (s_out s ch) \<and> (\<forall>gr. ch \<notin> s_groups s gr) \<and>
         (\<forall>s'. conn_step ch s = Some s' \<longrightarrow> s_db s' = s_db s \<and> s_groups s' = s_groups s)"
proof -
  note u = gw_inv_unauth [OF gw_reach_inv [OF reach] c na]
  have "s_db s' = s_db s \<and> s_groups s' = s_groups s" if st: "conn_step ch s = Some s'" for s'
  proof -
    from u c st obtain es where q: "s_inbox s ch = WsDisconnect # es" and pc: "c_pc c = Idle"
      and s': "s' = disconnect ch c (s\<lparr>s_inbox := (s_inbox s)(ch := es)\<rparr>)"
      by (auto simp: conn_step_def Let_def dispatch_def split: list.splits)
    from u have "s_groups s (group_name (c_room c)) - {ch} = s_groups s (group_name (c_room c))" by auto
    then show ?thesis by (simp add: s' disconnect_def fun_upd_idem)
  qed
  with u show ?thesis by blast
qed

text \<open>
  C7.  An accepted move of an authenticated player is applied to the
  database by \<open>make_move\<close> and its message is then put, once, into the queue
  of every consumer attached to the room (the mover's own included) and of
  no other; no frame is written during these two steps.
\<close>

theorem receive_move_broadcast:
  assumes reach: "gw_reach jwt d0 s" and c: "s_conns s ch = Some c" and pc: "c_pc c = Receive_move p"
    and u: "c_user c = Some u" and mv: "make_move (c_room c) u p (s_db s) = (d', Some m)"
  shows "\<exists>s'. run_conn 2 ch s = Some s' \<and> s_db s' = d' \<and> s_out s' = s_out s \<and>
     (\<forall>x. s_inbox s' x =
        (if \<exists>c'. s_conns s x = Some c' \<and> c_room c' = c_room c \<and> in_group c'
         then s_inbox s x @ [GameMessage m] else s_inbox s x))"
proof -
  have mem: "x \<in> s_groups s (group_name (c_room c)) \<longleftrightarrow>
      (\<exists>c'. s_conns s x = Some c' \<and> c_room c' = c_room c \<and> in_group c')" for x
    using gw_inv_members [OF gw_reach_inv [OF reach], of x] by auto
  have rm: "run_make_move c p (s_db s) = (d', Some m)" using u mv by (simp add: run_make_move_def)
  show ?thesis
    using c pc rm by (simp add: numeral_eq_Suc conn_step_simps mem [symmetric])
qed

text \<open>
  C24.  Scenario E: when a player reconnects to a room whose second seat is
  taken (a match in progress or completed), its \<open>connect\<close> completes in five
  steps, leaves the database unchanged, and writes the accept and then the
  full \<open>game_state\<close> snapshot of the row as it is at that moment.
\<close>

theorem connect_snapshot:
  assumes c: "s_conns s ch = Some c" and pc: "c_pc c = Connect_group_add"
    and g: "get_game (c_room c) (s_db s) = Inr g" and p2: "player2 g \<noteq> None"
  shows "\<exists>s'. run_conn 5 ch s = Some s' \<and> s_db s' = s_db s \<and>
     s_out s' ch = s_out s ch @ [Accepted, Sent (GameStateMsg (board g) (status g)
        (name_opt (current_turn g)) (username (player1 g)) (name_opt (player2 g)) (name_opt (winner g)))] \<and>
     ch \<in> s_groups s' (group_name (c_room c)) \<and> s_conns s' ch = Some (c\<lparr>c_pc := Idle\<rparr>)"
proof -
  have ap: "run_add_player c (s_db s) = (s_db s, None)"
    using g p2 by (auto simp: run_add_player_def add_player_to_game_def split: option.split sum.split)
  have gs: "get_game_state (c_room c) (s_db s) = Inr (Some (GameStateMsg (board g) (status g)
        (name_opt (current_turn g)) (username (player1 g)) (name_opt (player2 g)) (name_opt (winner g))))"
    using g by (simp add: get_game_state_def)
  show ?thesis
    using c pc ap gs by (simp add: numeral_eq_Suc conn_step_simps)
qed

text \<open>
  C25.  Scenario B through the socket: the first distinct user to connect to a
  pending room becomes player2; the \<open>player_joined\<close> message goes to every
  consumer of the room, the new one included, and the newcomer then gets
  the snapshot of the game in progress with player1 to move.
\<close>

theorem connect_join_broadcast:
  assumes wf: "wf_db (s_db s)" and c: "s_conns s ch = Some c" and pc: "c_pc c = Connect_group_add"
    and u: "c_user c = Some u" and g: "get_game (c_room c) (s_db s) = Inr g"
    and free: "player2 g = None" and other: "player1 g \<noteq> u" and x: "get_user u (s_db s) = Inr x"
  shows "\<exists>s'. run_conn 6 ch s = Some s' \<and>
     s_db s' = save_game (g\<lparr>player2 := Some u, status := IN_PROGRESS, current_turn := Some (player1 g)\<rparr>) (s_db s) \<and>
     (\<forall>y. s_inbox s' y =
        (if y = ch \<or> y \<in> s_groups s (group_name (c_room c))
         then s_inbox s y @ [GameMessage (PlayerJoined (username u) IN_PROGRESS (username (player1 g)) (board g))]
         else s_inbox s y)) \<and>
     s_out s' ch = s_out s ch @ [Accepted, Sent (GameStateMsg (board g) IN_PROGRESS
        (username (player1 g)) (username (player1 g)) (username u) (name_opt (winner g)))]"
proof -
  define g' where "g' = g\<lparr>player2 := Some u, status := IN_PROGRESS, current_turn := Some (player1 g)\<rparr>"
  have ap: "run_add_player c (s_db s) =
      (save_game g' (s_db s), Some (PlayerJoined (username u) IN_PROGRESS (username (player1 g)) (board g)))"
    using g free other x u by (simp add: run_add_player_def add_player_to_game_def g'_def)
  from g have "g \<in> set (games (s_db s))" and rc: "room_code g = c_room c" by (auto dest: get_game_Inr)
  with wf have "get_game (room_code g) (save_game g' (s_db s)) = Inr g'"
    by (intro get_game_save) (simp_all add: wf_db_def g'_def)
  then have gs: "get_game_state (c_room c) (save_game g' (s_db s)) = Inr (Some (GameStateMsg (board g) IN_PROGRESS
        (username (player1 g)) (username (player1 g)) (username u) (name_opt (winner g))))"
    by (simp add: get_game_state_def rc g'_def name_opt_def)
  show ?thesis
    using c pc ap gs by (simp add: numeral_eq_Suc conn_step_simps g'_def fun_eq_iff)
qed


text \<open>
  C29.  A query string with no \<open>=\<close> (the empty one included, so a
  connection without \<open>?token=\<close>) makes \<open>dict(...)\<close> raise \<open>ValueError\<close>
  at line 23, before the \<open>try\<close>: the application instance crashes and the
  socket is aborted instead of being closed as an authentication failure.
\<close>

theorem connect_query_crash:
  assumes "CHR ''='' \<notin> set qs" and "s_conns s ch = None"
  shows "s_out (connect jwt ch rc qs s) ch = s_out s ch @ [Aborted] \<and>
         s_groups (connect jwt ch rc qs s) = s_groups s \<and> s_db (connect jwt ch rc qs s) = s_db s \<and>
         s_inbox (connect jwt ch rc qs s) = s_inbox s \<and>
         map_option c_pc (s_conns (connect jwt ch rc qs s) ch) = Some Stopped"
  using assms by (simp add: connect_def query_token_no_eq abort_def)

theorem connect_query_crash_witness:
  "s_out (connect (\<lambda>_. InvalidToken) ''c1'' ''AB12CD'' '''' (init_sys \<lparr>games = [], users = [], moves = [], game_seq = 1\<rparr>)) ''c1'' = [Aborted]"
  using connect_query_crash [of "''''" "init_sys \<lparr>games = [], users = [], moves = [], game_seq = 1\<rparr>" "''c1''" "\<lambda>_. InvalidToken" "''AB12CD''"]
  by (simp add: init_sys_def)

text \<open>
  C10.  A token that \<open>jwt.decode\<close> rejects closes the socket at once: the
  close frame is the only frame, the disconnect is queued, and neither the
  groups nor the database change.
\<close>

theorem connect_invalid_token:
  assumes "s_conns s ch = None" and "query_token qs = Inr tok" and "jwt tok = InvalidToken"
  shows "s_out (connect jwt ch rc qs s) ch = s_out s ch @ [Closed] \<and>
         s_inbox (connect jwt ch rc qs s) ch = s_inbox s ch @ [WsDisconnect] \<and>
         s_groups (connect jwt ch rc qs s) = s_groups s \<and> s_db (connect jwt ch rc qs s) = s_db s \<and>
         map_option c_auth (s_conns (connect jwt ch rc qs s) ch) = Some False"
  using assms by (simp add: connect_def close_def)

text \<open>
  C31.  Protocol errors are answered to the sender only, and the connection
  stays open: a frame that is not JSON gets \<open>Invalid JSON format\<close>, JSON
  that is not an object gets \<open>Internal server error\<close> (the \<open>AttributeError\<close>
  of \<open>data.get\<close>), and an object whose \<open>action\<close> is not \<open>make_move\<close> is
  dropped without any answer, although spec section 4.4 asks for a
  requester-scoped error event.  Nothing else of the system changes.
\<close>

theorem receive_protocol_errors:
  assumes c: "s_conns s ch = Some c" and pc: "c_pc c = Idle" and q: "s_inbox s ch = WsReceive w # es"
    and nomove: "\<forall>kvs. w = Json (PyDict kvs) \<longrightarrow> dict_get kvs ''action'' \<noteq> PyStr ''make_move''"
  shows "conn_step ch s =
     Some (s\<lparr>s_inbox := (s_inbox s)(ch := es), s_out := (s_out s)(ch := s_out s ch @
        (case w of
           BadJson \<Rightarrow> [Sent (ErrorMsg ''Invalid JSON format'')]
         | Json (PyDict kvs) \<Rightarrow> []
         | Json _ \<Rightarrow> [Sent (ErrorMsg ''Internal server error'')]))\<rparr>)"
  using c pc q nomove
  by (auto simp: conn_step_simps dispatch_def receive_def send_def split: wire_in.split pyval.split)

text \<open>
  C40.  The query-string parser reads back what a client writes: for keys and
  values free of \<open>&\<close> and \<open>=\<close>, the token is the value of the last
  \<open>token\<close> key, or empty when there is none.
\<close>

theorem query_token_roundtrip:
  assumes "kvs \<noteq> []"
    and "list_all (\<lambda>(k, v). CHR ''='' \<notin> set k \<and> CHR ''='' \<notin> set v \<and>
                         CHR ''&'' \<notin> set k \<and> CHR ''&'' \<notin> set v) kvs"
  shows "query_token (render_query kvs) =
           Inr (case map_of (rev kvs) ''token'' of None \<Rightarrow> [] | Some t \<Rightarrow> t)"
proof -
  have "py_split CHR ''&'' (render_query kvs) = map (\<lambda>(k, v). k @ ''='' @ v) kvs"
    unfolding render_query_def using assms
    by (intro py_split_join) (auto simp: list_all_iff)
  moreover have "dict_of_pairs (map (py_split CHR ''='') (map (\<lambda>(k, v). k @ ''='' @ v) kvs)) = Inr kvs"
    using assms(2) by (intro dict_of_pairs_split) (auto simp: list_all_iff)
  ultimately show ?thesis by (simp add: query_token_def)
qed

theorem query_token_roundtrip_witness:
  "query_token (render_query [(''a'', ''1''), (''token'', ''abc.def'')]) = Inr ''abc.def''"
  using query_token_roundtrip [of "[(''a'', ''1''), (''token'', ''abc.def'')]"] by simp

end
