(* ===== verification/Api.thy ===== *)
theory Api
  imports Gateway
begin

text \<open>
  The HTTP side of \<open>GameViewSet\<close> (\<open>src/game/views.py\<close> 14--18 and the
  \<open>@action\<close> decorators): Django REST framework's \<open>APIView.dispatch\<close> runs
  \<open>initial()\<close> -- authentication by \<open>JWTAuthentication\<close>, then the
  \<open>IsAuthenticated\<close> permission -- before it looks the handler up by the
  request method, and turns the exceptions it raises into responses (401
  for the authentication errors, since \<open>JWTAuthentication\<close> has an
  \<open>authenticate_header\<close>; 405 for an unbound method).  The verdict of
  \<open>AccessToken(raw)\<close> (signature, expiry, token type) is a parameter, as
  \<open>jwt.decode\<close> is for the consumer; the tokens the server issues carry the
  user's integer primary key as \<open>user_id\<close>.  \<open>user.is_active\<close> is not
  modelled: no code of the repository clears it.  Content negotiation and
  throttling (none configured) are not modelled.
\<close>

section \<open>Authentication\<close>

datatype access_token = Rejected | Access "uid option"

text \<open>\<open>bytes.split()\<close>: the words between runs of ASCII whitespace.\<close>

definition is_ws :: "char \<Rightarrow> bool" where
  "is_ws c \<longleftrightarrow> c \<in> set [CHR '' '', CHR 0x09, CHR 0x0A, CHR 0x0B, CHR 0x0C, CHR 0x0D]"

function ws_split :: "string \<Rightarrow> string list" where
  "ws_split s =
     (let s' = dropWhile is_ws s
      in if s' = [] then [] else takeWhile (\<lambda>c. \<not> is_ws c) s' # ws_split (dropWhile (\<lambda>c. \<not> is_ws c) s'))"
  by pat_completeness auto

termination
proof (relation "measure length")
  fix s s' :: string
  assume s': "s' = dropWhile is_ws s" and ne: "s' \<noteq> []"
  then have hd: "\<not> is_ws (hd s')" using hd_dropWhile by blast
  from ne obtain c t where c: "s' = c # t" by (cases s') auto
  with hd have "dropWhile (\<lambda>c. \<not> is_ws c) s' = dropWhile (\<lambda>c. \<not> is_ws c) t" by simp
  then have "length (dropWhile (\<lambda>c. \<not> is_ws c) s') < length s'"
    using c by (simp add: le_imp_less_Suc length_dropWhile_le)
  moreover have "length s' \<le> length s" using s' by (simp add: length_dropWhile_le)
  ultimately show "(dropWhile (\<lambda>c. \<not> is_ws c) s', s) \<in> measure length" by simp
qed simp

declare ws_split.simps [simp del]

text \<open>
  \<open>JWTAuthentication.authenticate\<close> with the default settings
  (\<open>AUTH_HEADER_TYPES = ('Bearer',)\<close>, \<open>USER_ID_CLAIM = 'user_id'\<close>):
  \<open>Inr None\<close> is no credential (no header, or another scheme), \<open>Inr (Some u)\<close>
  the authenticated user, \<open>Inl\<close> the status and detail of the exception.
  \<open>User.objects.get\<close> raising anything but \<open>DoesNotExist\<close> is a server error.
\<close>

definition jwt_authenticate ::
  "(string \<Rightarrow> access_token) \<Rightarrow> string option \<Rightarrow> db \<Rightarrow> (nat \<times> string) + uid option" where
  "jwt_authenticate tok header d =
     (case header of
        None \<Rightarrow> Inr None
      | Some h \<Rightarrow>
          (case ws_split h of
             [] \<Rightarrow> Inr None
           | p # ps \<Rightarrow>
               if p \<noteq> ''Bearer'' then Inr None
               else if length ps \<noteq> 1 then
                 Inl (401, ''Authorization header must contain two space-delimited values'')
               else
                 (case tok (hd ps) of
                    Rejected \<Rightarrow> Inl (401, ''Given token not valid for any token type'')
                  | Access None \<Rightarrow> Inl (401, ''Token contained no recognizable user identification'')
                  | Access (Some u) \<Rightarrow>
                      (case get_user u d of
                         Inl DoesNotExist \<Rightarrow> Inl (401, ''User not found'')
                       | Inl _ \<Rightarrow> Inl (500, ''Server Error'')
                       | Inr _ \<Rightarrow> Inr (Some u)))))"

section \<open>Dispatch\<close>

datatype api_action =
    CreateGameAction "room_code list"
  | JoinGameAction "string option"
  | GameHistoryAction

datatype api_response = Resp response | Metadata

text \<open>
  The methods each \<open>@action\<close> binds (\<open>methods=['post']\<close>,
  \<open>methods=['get']\<close>, and \<open>head\<close> with \<open>get\<close>, as \<open>ViewSet.as_view\<close> adds it).
\<close>

fun bound_methods :: "api_action \<Rightarrow> string list" where
  "bound_methods (CreateGameAction _) = [''POST'']"
| "bound_methods (JoinGameAction _) = [''POST'']"
| "bound_methods GameHistoryAction = [''GET'', ''HEAD'']"

fun run_action :: "uid \<Rightarrow> api_action \<Rightarrow> db \<Rightarrow> (db \<times> api_response) option" where
  "run_action u (CreateGameAction draws) d = map_option (\<lambda>(d', r). (d', Resp r)) (create_game u draws d)"
| "run_action u (JoinGameAction rc) d = Some (d, Resp (join_game u rc d))"
| "run_action u GameHistoryAction d = Some (d, Resp (game_history u d))"

text \<open>
  \<open>APIView.dispatch\<close>: \<open>initial()\<close> (authentication, then
  \<open>IsAuthenticated\<close>, whose failure for an anonymous request with an
  authenticator is \<open>NotAuthenticated\<close>), then the handler of the method:
  \<open>options\<close> answers the metadata, an unbound method 405.  \<open>None\<close>: the
  redraw loop of \<open>create_game\<close> has not returned.
\<close>

definition api_request ::
  "(string \<Rightarrow> access_token) \<Rightarrow> string option \<Rightarrow> string \<Rightarrow> api_action \<Rightarrow> db \<Rightarrow> (db \<times> api_response) option" where
  "api_request tok header meth act d =
     (case jwt_authenticate tok header d of
        Inl (code, detail) \<Rightarrow> Some (d, Resp (ErrorResp code detail))
      | Inr None \<Rightarrow> Some (d, Resp (ErrorResp 401 ''Authentication credentials were not provided.''))
      | Inr (Some u) \<Rightarrow>
          if meth = ''OPTIONS'' then Some (d, Metadata)
          else if meth \<notin> set (bound_methods act) then
            Some (d, Resp (ErrorResp 405 (''Method \"'' @ meth @ ''\" not allowed.'')))
          else run_action u act d)"

section \<open>Lemmas\<close>

lemma get_user_error:
  assumes "wf_db d" and "get_user u d = Inl e"
  shows "e = DoesNotExist"
proof -
  from assms(1) have "get_user u d \<noteq> Inl MultipleObjectsReturned"
    unfolding get_user_def wf_db_def by (intro db_get_not_multiple) simp
  with assms(2) show ?thesis
    by (auto simp: get_user_def db_get_def split: list.splits)
qed

text \<open>On a well-formed database every authentication error is a 401.\<close>

lemma jwt_authenticate_401:
  "wf_db d \<Longrightarrow> jwt_authenticate tok h d = Inl (c, m) \<Longrightarrow> c = 401"
  by (auto simp: jwt_authenticate_def dest: get_user_error
      split: option.splits list.splits if_splits access_token.splits sum.splits py_error.splits)

text \<open>An authenticated request with a method its action binds runs the action.\<close>

lemma api_request_runs_action:
  "jwt_authenticate tok h d = Inr (Some u) \<Longrightarrow> meth \<in> set (bound_methods act) \<Longrightarrow>
   api_request tok h meth act d = run_action u act d"
  by (cases act) (auto simp: api_request_def)

section \<open>Properties\<close>

text \<open>
  C19.  Login comes first: a request to any action of \<open>GameViewSet\<close>, with
  any method, that does not authenticate as an existing user (no
  \<open>Authorization\<close> header, another scheme, a malformed header, a rejected
  token, a token without a user or for a deleted user) is answered 401 and
  leaves the database as it was; in particular an unbound method is
  reported as 405 only to an authenticated caller.
\<close>

theorem api_requires_login:
  assumes wf: "wf_db d" and anon: "\<forall>u. jwt_authenticate tok h d \<noteq> Inr (Some u)"
  shows "\<exists>detail. api_request tok h meth act d = Some (d, Resp (ErrorResp 401 detail))"
proof (cases "jwt_authenticate tok h d")
  case (Inl r)
  obtain c m where r: "r = (c, m)" by (cases r)
  with Inl wf have "c = 401" by (simp add: jwt_authenticate_401)
  with Inl r show ?thesis by (simp add: api_request_def)
next
  case (Inr x)
  with anon have "x = None" by (cases x) auto
  with Inr show ?thesis by (simp add: api_request_def)
qed

end
