(* ===== verification/Layer.thy ===== *)
theory Layer
  imports Gateway
begin

text \<open>
  The capacity of the Channels channel layer (\<open>channel_layer.group_send\<close>,
  consumers.py 40--43 and 75--78).  A layer keeps, per channel, at most
  \<open>capacity\<close> undelivered messages (default 100 for both the in-memory and
  the Redis layer; \<open>CHANNEL_LAYERS\<close> is not part of the repository) and
  \<open>group_send\<close> silently skips a member whose queue is full.  The consumer's
  own event list \<open>s_inbox\<close> models the layer queue for its
  \<open>GameMessage\<close> events.  The theory shows that this never happens in this
  program: a room sends at most one \<open>player_joined\<close> and one message per
  move, and a game has at most nine moves, so no queue ever holds more than
  ten messages and the uncapped \<open>group_send\<close> of the Gateway model is exact.
  Message expiry (60 s) is time and is not modelled.
\<close>

section \<open>The channel layer's capacity\<close>

definition is_layer_msg :: "event \<Rightarrow> bool" where
  "is_layer_msg e = (case e of GameMessage _ \<Rightarrow> True | _ \<Rightarrow> False)"

definition layer_pending :: "sys \<Rightarrow> channel \<Rightarrow> nat" where
  "layer_pending s x = length (filter is_layer_msg (s_inbox s x))"

definition group_send_cap :: "nat \<Rightarrow> string \<Rightarrow> msg \<Rightarrow> sys \<Rightarrow> sys" where
  "group_send_cap cap gr m s =
     s\<lparr>s_inbox := (\<lambda>x. if x \<in> s_groups s gr \<and> layer_pending s x < cap
                       then s_inbox s x @ [GameMessage m] else s_inbox s x)\<rparr>"

section \<open>The broadcast budget of a room\<close>

text \<open>One \<open>player_joined\<close> once the second seat is taken, one message per logged move.\<close>

definition room_budget :: "db \<Rightarrow> room_code \<Rightarrow> nat" where
  "room_budget d r =
     (case get_game r d of
        Inl _ \<Rightarrow> 0
      | Inr g \<Rightarrow> (if player2 g = None then 0 else 1) + length (game_moves d (gid g)))"

section \<open>The invariant\<close>

text \<open>
  The consumers that stand at a broadcast (\<open>group_send\<close> not yet run),
  per room; the invariant: each member's undelivered messages plus the
  room's pending broadcasts stay within the room's budget.  A step is
  \<open>layer_quiet\<close> when it cannot break it: the database only grows budgets,
  no consumer starts or ends a broadcast, no queue grows, rooms are kept.
\<close>

fun bc_pc :: "pc \<Rightarrow> bool" where
  "bc_pc (Connect_broadcast _) = True"
| "bc_pc (Receive_broadcast _) = True"
| "bc_pc _ = False"

definition bcast_room :: "conn option \<Rightarrow> room_code option" where
  "bcast_room co = (case co of Some c \<Rightarrow> if bc_pc (c_pc c) then Some (c_room c) else None | None \<Rightarrow> None)"

definition inflight :: "sys \<Rightarrow> room_code \<Rightarrow> nat" where
  "inflight s r = card {x. bcast_room (s_conns s x) = Some r}"

definition layer_inv :: "sys \<Rightarrow> bool" where
  "layer_inv s \<longleftrightarrow> wf_db (s_db s) \<and> finite (dom (s_conns s)) \<and>
     (\<forall>r. inflight s r \<le> room_budget (s_db s) r) \<and>
     (\<forall>x c. s_conns s x = Some c \<longrightarrow>
        layer_pending s x + inflight s (c_room c) \<le> room_budget (s_db s) (c_room c))"

definition layer_quiet :: "sys \<Rightarrow> sys \<Rightarrow> bool" where
  "layer_quiet s s' \<longleftrightarrow>
     (wf_db (s_db s) \<longrightarrow> wf_db (s_db s')) \<and> (\<forall>r. room_budget (s_db s) r \<le> room_budget (s_db s') r) \<and>
     (\<forall>x. bcast_room (s_conns s' x) = bcast_room (s_conns s x)) \<and>
     (\<forall>x. layer_pending s' x \<le> layer_pending s x) \<and>
     (\<forall>x c'. s_conns s' x = Some c' \<longrightarrow> (\<exists>c. s_conns s x = Some c \<and> c_room c = c_room c'))"

section \<open>Lemmas on the budget\<close>

lemma game_moves_save_game [simp]: "game_moves (save_game g d) k = game_moves d k"
  by (simp add: game_moves_def save_game_def)

lemma game_moves_snoc_move:
  "game_moves (d\<lparr>moves := moves d @ [mv]\<rparr>) k = game_moves d k @ (if gm_game mv = k then [mv] else [])"
  by (simp add: game_moves_def)

lemma room_budget_add_player:
  assumes wf: "wf_db d" and ap: "add_player_to_game rc u d = (d', Some m)"
  shows "room_budget d' rc = Suc (room_budget d rc) \<and> (\<forall>r. r \<noteq> rc \<longrightarrow> room_budget d' r = room_budget d r)"
proof -
  from add_player_cases [of rc u d] ap obtain g x where g: "get_game rc d = Inr g" and p2: "player2 g = None"
    and d': "d' = save_game (g\<lparr>player2 := Some u, status := IN_PROGRESS, current_turn := Some (player1 g)\<rparr>) d"
    by auto
  let ?g' = "g\<lparr>player2 := Some u, status := IN_PROGRESS, current_turn := Some (player1 g)\<rparr>"
  from get_game_Inr [OF g] have gin: "g \<in> set (games d)" and rcg: "room_code g = rc" by auto
  from wf have dist: "distinct (map gid (games d))" "distinct (map room_code (games d))" by (auto simp: wf_db_def)
  have "get_game rc d' = Inr ?g'"
    using get_game_save [OF dist gin, of ?g' d] rcg d' by simp
  then have here: "room_budget d' rc = Suc (room_budget d rc)"
    using g p2 d' by (simp add: room_budget_def)
  have "room_budget d' r = room_budget d r" if "r \<noteq> rc" for r
  proof -
    have "get_game r d' = get_game r d"
      using get_game_save_other [OF dist(1) gin, of ?g' r] rcg that d' by simp
    then show ?thesis using d' by (simp add: room_budget_def split: sum.split)
  qed
  with here show ?thesis by blast
qed

lemma room_budget_add_player_None:
  "add_player_to_game rc u d = (d', None) \<Longrightarrow> d' = d"
  using add_player_cases [of rc u d] by auto

lemma room_budget_make_move:
  assumes wf: "wf_db d" and mm: "make_move rc u p d = (d', m)"
  shows "(d' = d \<and> m = None) \<or>
         (room_budget d' rc = Suc (room_budget d rc) \<and> (\<forall>r. r \<noteq> rc \<longrightarrow> room_budget d' r = room_budget d r))"
  using make_move_cases [OF wf, of rc u p]
proof
  assume "make_move rc u p d = (d, None)"
  with mm show ?thesis by simp
next
  assume "\<exists>g i g' m. get_game rc d = Inr g \<and> status g = IN_PROGRESS \<and> current_turn g = Some u \<and>
        py_int_of p = Some (int i) \<and> i < 9 \<and> board g ! i = EMPTY \<and>
        decide_move g u p i = Inr (g', m) \<and> wf_game g' \<and> gid g' = gid g \<and>
        room_code g' = room_code g \<and> player1 g' = player1 g \<and> player2 g' = player2 g \<and>
        board g' = (board g)[i := mark_of g u] \<and> IN_PROGRESS \<le> status g' \<and>
        make_move rc u p d =
          (save_game g' (d\<lparr>moves := moves d @ [\<lparr>gm_game = gid g, gm_player = u, gm_position = int i\<rparr>]\<rparr>), m)"
  then obtain g i g' where g: "get_game rc d = Inr g" and ids: "gid g' = gid g" "room_code g' = room_code g"
      "player2 g' = player2 g"
    and d': "d' = save_game g' (d\<lparr>moves := moves d @ [\<lparr>gm_game = gid g, gm_player = u, gm_position = int i\<rparr>]\<rparr>)"
    using mm by auto
  define d1 where "d1 = d\<lparr>moves := moves d @ [\<lparr>gm_game = gid g, gm_player = u, gm_position = int i\<rparr>]\<rparr>"
  from get_game_Inr [OF g] have gin: "g \<in> set (games d)" and rcg: "room_code g = rc" by auto
  from wf have dist: "distinct (map gid (games d))" "distinct (map room_code (games d))" by (auto simp: wf_db_def)
  have "get_game rc d' = Inr g'"
    using get_game_save [OF dist gin, of g' d1] ids rcg d' by (simp add: d1_def)
  then have here: "room_budget d' rc = Suc (room_budget d rc)"
    using g ids d' by (simp add: room_budget_def d1_def game_moves_snoc_move)
  have "room_budget d' r = room_budget d r" if ne: "r \<noteq> rc" for r
  proof -
    have gr: "get_game r d' = get_game r d"
      using make_move_other_room [OF wf ne, of u p] mm by simp
    show ?thesis
    proof (cases "get_game r d")
      case (Inl e)
      with gr show ?thesis by (simp add: room_budget_def)
    next
      case (Inr h)
      from get_game_Inr [OF Inr] have "h \<in> set (games d)" "room_code h = r" by auto
      with gin rcg ne dist(1) have "gid h \<noteq> gid g" by (metis distinct_map inj_on_eq_iff)
      with Inr gr d' show ?thesis by (simp add: room_budget_def game_moves_snoc_move)
    qed
  qed
  with here show ?thesis by blast
qed

lemma room_budget_create:
  assumes wf: "wf_db d" and cg: "create_game u draws d = Some (d', resp)"
  shows "room_budget d' r = room_budget d r"
proof -
  from cg obtain rc where pick: "pick_room_code (games d) draws = Some rc"
    and d': "d' = d\<lparr>games := games d @ [new_game (game_seq d) rc u], game_seq := Suc (game_seq d)\<rparr>"
    by (auto simp: create_game_def split: option.splits)
  from pick_room_code_fresh [OF pick] have fresh: "\<not> list_ex (\<lambda>g. room_code g = rc) (games d)" by blast
  have nomoves: "game_moves d (game_seq d) = []"
    using wf by (force simp: game_moves_def wf_db_def list_all_iff filter_empty_conv)
  show ?thesis
  proof (cases "r = rc")
    case True
    then have "get_game r d = Inl DoesNotExist" using fresh by (simp add: get_game_def db_get_absent)
    moreover have "get_game r d' = Inr (new_game (game_seq d) rc u)"
      using fresh True d' by (simp add: get_game_def db_get_def new_game_def filter_empty_conv list_ex_iff)
    ultimately show ?thesis using d' nomoves by (simp add: room_budget_def new_game_def game_moves_def)
  next
    case False
    then have "get_game r d' = get_game r d"
      using d' by (simp add: get_game_def db_get_def new_game_def)
    then show ?thesis using d' by (simp add: room_budget_def game_moves_def split: sum.split)
  qed
qed


section \<open>Lemmas on the invariant\<close>

lemma bcast_dom: "{x. bcast_room (s_conns s x) = Some r} \<subseteq> dom (s_conns s)"
  by (auto simp: bcast_room_def split: option.splits)

lemma layer_inv_quiet:
  assumes inv: "layer_inv s" and q: "layer_quiet s s'"
  shows "layer_inv s'"
proof -
  from q have inf: "inflight s' r = inflight s r" for r
    by (simp add: inflight_def layer_quiet_def)
  from q have "dom (s_conns s') \<subseteq> dom (s_conns s)"
    by (fastforce simp: layer_quiet_def)
  with inv have fin: "finite (dom (s_conns s'))" by (auto simp: layer_inv_def intro: finite_subset)
  show ?thesis
    unfolding layer_inv_def
  proof (intro conjI allI impI)
    show "wf_db (s_db s')" using inv q by (simp add: layer_inv_def layer_quiet_def)
    show "finite (dom (s_conns s'))" by (rule fin)
  next
    fix r
    show "inflight s' r \<le> room_budget (s_db s') r"
      using inv q inf by (metis layer_inv_def layer_quiet_def le_trans)
  next
    fix x c'
    assume "s_conns s' x = Some c'"
    with q obtain c where c: "s_conns s x = Some c" "c_room c = c_room c'" unfolding layer_quiet_def by blast
    from inv c(1) have "layer_pending s x + inflight s (c_room c) \<le> room_budget (s_db s) (c_room c)"
      unfolding layer_inv_def by blast
    with q c inf show "layer_pending s' x + inflight s' (c_room c') \<le> room_budget (s_db s') (c_room c')"
      unfolding layer_quiet_def by (metis add_le_mono le_trans order_refl)
  qed
qed

lemma layer_quiet_refl: "layer_quiet s s"
  by (simp add: layer_quiet_def)

lemma layer_quiet_trans: "layer_quiet s1 s2 \<Longrightarrow> layer_quiet s2 s3 \<Longrightarrow> layer_quiet s1 s3"
  unfolding layer_quiet_def by (metis le_trans)

lemma layer_quiet_ops:
  "layer_quiet s (send ch f s)" "layer_quiet s (group_add gr ch s)" "layer_quiet s (group_discard gr ch s)"
  "\<not> is_layer_msg e \<Longrightarrow> layer_quiet s (push_event ch e s)"
  by (auto simp: layer_quiet_def sys_ops layer_pending_def push_event_def)

lemma layer_quiet_set_conn:
  assumes "\<And>c. s_conns s ch = Some c \<Longrightarrow> c_room (f c) = c_room c \<and> bc_pc (c_pc (f c)) = bc_pc (c_pc c)"
  shows "layer_quiet s (set_conn ch f s)"
  using assms by (auto simp: layer_quiet_def set_conn_def layer_pending_def bcast_room_def split: option.splits)

lemma layer_quiet_set_pc:
  "s_conns s ch = Some c \<Longrightarrow> \<not> bc_pc (c_pc c) \<Longrightarrow> \<not> bc_pc p \<Longrightarrow> layer_quiet s (set_pc ch p s)"
  unfolding set_pc_def by (rule layer_quiet_set_conn) simp

lemma layer_quiet_pop:
  "s_inbox s ch = e # es \<Longrightarrow> layer_quiet s (s\<lparr>s_inbox := (s_inbox s)(ch := es)\<rparr>)"
  by (auto simp: layer_quiet_def layer_pending_def)

lemma layer_quiet_close: "layer_quiet s (close ch s)"
proof (cases "s_conns s ch")
  case None
  then show ?thesis by (simp add: close_def layer_quiet_refl)
next
  case (Some c)
  have "layer_quiet s (push_event ch WsDisconnect (send ch Closed s))"
    by (rule layer_quiet_trans [OF layer_quiet_ops(1) layer_quiet_ops(4)]) (simp add: is_layer_msg_def)
  moreover have "layer_quiet (push_event ch WsDisconnect (send ch Closed s))
     (set_conn ch (\<lambda>c. c\<lparr>c_open := False\<rparr>) (push_event ch WsDisconnect (send ch Closed s)))"
    by (rule layer_quiet_set_conn) simp
  ultimately show ?thesis using Some by (auto simp: close_def layer_quiet_refl intro: layer_quiet_trans)
qed

lemma layer_quiet_db:
  "wf_db d' \<Longrightarrow> (\<And>r. room_budget (s_db s) r \<le> room_budget d' r) \<Longrightarrow> layer_quiet s (s\<lparr>s_db := d'\<rparr>)"
  by (simp add: layer_quiet_def layer_pending_def)

lemma layer_quiet_dispatch:
  assumes c: "s_conns s ch = Some c" and pc: "c_pc c = Idle"
  shows "layer_quiet s (dispatch ch c e s)"
proof (cases e)
  case (WsReceive w)
  have "layer_quiet s (receive ch w s)"
    using c pc by (auto simp: receive_def layer_quiet_ops layer_quiet_refl intro: layer_quiet_set_pc
        split: wire_in.split pyval.split)
  with WsReceive show ?thesis by (simp add: dispatch_def)
next
  case (GameMessage m)
  then show ?thesis by (simp add: dispatch_def game_message_def layer_quiet_ops)
next
  case WsDisconnect
  have "layer_quiet (group_discard (group_name (c_room c)) ch s)
      (set_pc ch Stopped (group_discard (group_name (c_room c)) ch s))"
    using c pc by (intro layer_quiet_set_pc [where c = c]) (simp_all add: group_discard_def)
  with WsDisconnect show ?thesis
    by (auto simp: dispatch_def disconnect_def intro: layer_quiet_trans layer_quiet_ops(3))
qed

lemma inflight_start:
  assumes fin: "finite (dom (s_conns s))" and s': "s_conns s' = (s_conns s)(ch := co)"
    and old: "bcast_room (s_conns s ch) = None" and new: "bcast_room co = Some r0"
  shows "inflight s' r = inflight s r + (if r = r0 then 1 else 0)"
proof -
  let ?A = "{x. bcast_room (s_conns s x) = Some r}"
  have fA: "finite ?A" using fin bcast_dom [of s r] by (rule finite_subset [rotated])
  have chA: "ch \<notin> ?A" using old by simp
  have "{x. bcast_room (s_conns s' x) = Some r} = (if r = r0 then insert ch ?A else ?A)"
    using s' new old by auto
  with fA chA show ?thesis by (cases "r = r0") (simp_all add: inflight_def)
qed

lemma inflight_finish:
  assumes fin: "finite (dom (s_conns s))" and s': "s_conns s' = (s_conns s)(ch := co)"
    and old: "bcast_room (s_conns s ch) = Some r0" and new: "bcast_room co = None"
  shows "inflight s' r + (if r = r0 then 1 else 0) = inflight s r"
proof -
  let ?A = "{x. bcast_room (s_conns s' x) = Some r}"
  have "dom (s_conns s') \<subseteq> insert ch (dom (s_conns s))" using s' by auto
  then have fA: "finite ?A" using fin bcast_dom [of s' r] by (meson finite_insert finite_subset)
  have chA: "ch \<notin> ?A" using s' new by simp
  have "{x. bcast_room (s_conns s x) = Some r} = (if r = r0 then insert ch ?A else ?A)"
    using s' old new by auto
  with fA chA show ?thesis by (cases "r = r0") (simp_all add: inflight_def)
qed

lemma layer_inv_start:
  assumes inv: "layer_inv s" and c: "s_conns s ch = Some c" and nb: "\<not> bc_pc (c_pc c)" and bc: "bc_pc p"
    and wf': "wf_db d'" and up: "room_budget d' (c_room c) = Suc (room_budget (s_db s) (c_room c))"
    and oth: "\<forall>r. r \<noteq> c_room c \<longrightarrow> room_budget d' r = room_budget (s_db s) r"
  shows "layer_inv (set_pc ch p (s\<lparr>s_db := d'\<rparr>))"
proof -
  let ?s = "set_pc ch p (s\<lparr>s_db := d'\<rparr>)"
  from inv have fin: "finite (dom (s_conns s))" by (simp add: layer_inv_def)
  have inf: "inflight ?s r = inflight s r + (if r = c_room c then 1 else 0)" for r
    by (rule inflight_start [OF fin, of _ ch "Some (c\<lparr>c_pc := p\<rparr>)"]) (use c nb bc in \<open>simp_all add: bcast_room_def\<close>)
  have bud: "room_budget d' r = room_budget (s_db s) r + (if r = c_room c then 1 else 0)" for r
    using up oth by auto
  have pend: "layer_pending ?s x = layer_pending s x" for x by (simp add: layer_pending_def)
  have room: "s_conns ?s x = Some c' \<Longrightarrow> \<exists>c0. s_conns s x = Some c0 \<and> c_room c0 = c_room c'" for x c'
    by (auto split: if_splits)
  show ?thesis
    unfolding layer_inv_def
  proof (intro conjI allI impI)
    show "wf_db (s_db ?s)" using wf' by simp
    show "finite (dom (s_conns ?s))" using fin c by simp
  next
    fix r
    from inv have "inflight s r \<le> room_budget (s_db s) r" by (simp add: layer_inv_def)
    then show "inflight ?s r \<le> room_budget (s_db ?s) r" by (simp add: inf bud)
  next
    fix x c'
    assume "s_conns ?s x = Some c'"
    from room [OF this] obtain c0 where c0: "s_conns s x = Some c0" "c_room c0 = c_room c'" by blast
    from inv c0(1) have "layer_pending s x + inflight s (c_room c0) \<le> room_budget (s_db s) (c_room c0)"
      unfolding layer_inv_def by blast
    then show "layer_pending ?s x + inflight ?s (c_room c') \<le> room_budget (s_db ?s) (c_room c')"
      using c0(2) by (simp add: inf bud pend)
  qed
qed

lemma layer_inv_finish:
  assumes inv: "layer_inv s" and gw: "gw_inv s" and c: "s_conns s ch = Some c" and bc: "bc_pc (c_pc c)"
    and nb: "\<not> bc_pc p"
  shows "layer_inv (set_pc ch p (group_send (group_name (c_room c)) m s))"
proof -
  let ?gr = "group_name (c_room c)"
  let ?s = "set_pc ch p (group_send ?gr m s)"
  from inv have fin: "finite (dom (s_conns s))" by (simp add: layer_inv_def)
  have inf: "inflight ?s r + (if r = c_room c then 1 else 0) = inflight s r" for r
    by (rule inflight_finish [OF fin, of _ ch "Some (c\<lparr>c_pc := p\<rparr>)"]) (use c nb bc in \<open>simp_all add: bcast_room_def\<close>)
  have pend: "layer_pending ?s x = layer_pending s x + (if x \<in> s_groups s ?gr then 1 else 0)" for x
    by (simp add: layer_pending_def group_send_def is_layer_msg_def)
  have room: "s_conns ?s x = Some c' \<Longrightarrow> \<exists>c0. s_conns s x = Some c0 \<and> c_room c0 = c_room c'" for x c'
    by (auto split: if_splits)
  show ?thesis
    unfolding layer_inv_def
  proof (intro conjI allI impI)
    show "wf_db (s_db ?s)" using inv by (simp add: layer_inv_def)
    show "finite (dom (s_conns ?s))" using fin c by simp
  next
    fix r
    from inv have "inflight s r \<le> room_budget (s_db s) r" by (simp add: layer_inv_def)
    with inf [of r] show "inflight ?s r \<le> room_budget (s_db ?s) r" by simp
  next
    fix x c'
    assume "s_conns ?s x = Some c'"
    from room [OF this] obtain c0 where c0: "s_conns s x = Some c0" "c_room c0 = c_room c'" by blast
    from inv c0(1) have le: "layer_pending s x + inflight s (c_room c0) \<le> room_budget (s_db s) (c_room c0)"
      unfolding layer_inv_def by blast
    have mem: "x \<in> s_groups s ?gr \<Longrightarrow> c_room c0 = c_room c"
      using gw_inv_members [OF gw, of x ?gr] c0(1) by auto
    have db: "s_db ?s = s_db s" by simp
    show "layer_pending ?s x + inflight ?s (c_room c') \<le> room_budget (s_db ?s) (c_room c')"
    proof (cases "c_room c0 = c_room c")
      case True
      then have r: "c_room c' = c_room c" using c0(2) by simp
      from le True have le': "layer_pending s x + inflight s (c_room c) \<le> room_budget (s_db s) (c_room c)" by simp
      have p: "layer_pending ?s x \<le> Suc (layer_pending s x)" using pend [of x] by simp
      show ?thesis unfolding r db using le' p inf [of "c_room c", simplified] by linarith
    next
      case False
      then have r: "c_room c' = c_room c0" using c0(2) by simp
      have p: "layer_pending ?s x = layer_pending s x" using pend [of x] mem False by auto
      have i: "inflight ?s (c_room c0) = inflight s (c_room c0)" using inf [of "c_room c0"] False by simp
      show ?thesis unfolding r db using le p i by linarith
    qed
  qed
qed

lemma layer_inv_new_conn:
  assumes inv: "layer_inv s" and gw: "gw_inv s" and fresh: "s_conns s ch = None"
  shows "layer_inv (s\<lparr>s_conns := (s_conns s)(ch \<mapsto>
                 \<lparr>c_room = rc, c_user = None, c_auth = False, c_pc = Idle, c_open = True\<rparr>)\<rparr>)"
    (is "layer_inv ?s")
proof -
  from inv have fin: "finite (dom (s_conns s))" by (simp add: layer_inv_def)
  have "{x. bcast_room (s_conns ?s x) = Some r} = {x. bcast_room (s_conns s x) = Some r}" for r
    using fresh by (auto simp: bcast_room_def)
  then have inf: "inflight ?s r = inflight s r" for r by (simp add: inflight_def)
  from gw_invD [OF gw, of ch] fresh have "s_inbox s ch = []" by (simp add: chan_ok_def)
  then have p0: "layer_pending s ch = 0" by (simp add: layer_pending_def)
  show ?thesis
    unfolding layer_inv_def
  proof (intro conjI allI impI)
    show "wf_db (s_db ?s)" using inv by (simp add: layer_inv_def)
    show "finite (dom (s_conns ?s))" using fin by simp
  next
    fix r
    from inv show "inflight ?s r \<le> room_budget (s_db ?s) r" by (simp add: layer_inv_def inf)
  next
    fix x c'
    assume x: "s_conns ?s x = Some c'"
    show "layer_pending ?s x + inflight ?s (c_room c') \<le> room_budget (s_db ?s) (c_room c')"
    proof (cases "x = ch")
      case True
      with x have "c_room c' = rc" by auto
      with True inv p0 show ?thesis by (simp add: layer_inv_def inf layer_pending_def)
    next
      case False
      with x inv show ?thesis by (simp add: layer_inv_def inf layer_pending_def)
    qed
  qed
qed


lemma layer_inv_set_pc_after:
  assumes "layer_inv s" and "layer_quiet s s1" and "s_conns s1 ch = Some c" and "\<not> bc_pc (c_pc c)"
    and "\<not> bc_pc p"
  shows "layer_inv (set_pc ch p s1)"
  using assms by (blast intro: layer_inv_quiet layer_quiet_trans layer_quiet_set_pc)

lemma layer_inv_connect:
  assumes inv: "layer_inv s" and gw: "gw_inv s" and fresh: "s_conns s ch = None"
  shows "layer_inv (connect jwt ch rc qs s)"
proof -
  define c0 where "c0 = \<lparr>c_room = rc, c_user = None, c_auth = False, c_pc = Idle, c_open = True\<rparr>"
  define s1 where "s1 = s\<lparr>s_conns := (s_conns s)(ch \<mapsto> c0)\<rparr>"
  have i1: "layer_inv s1" unfolding s1_def c0_def using inv gw fresh by (rule layer_inv_new_conn)
  have q1: "layer_quiet s1 (abort ch s1)"
    unfolding abort_def
    by (rule layer_quiet_trans [OF layer_quiet_ops(1) layer_quiet_set_conn]) (simp add: s1_def c0_def)
  have q2: "layer_quiet s1 (set_conn ch (\<lambda>c. c\<lparr>c_user := v, c_auth := True, c_pc := Connect_group_add\<rparr>) s1)" for v
    by (rule layer_quiet_set_conn) (simp add: s1_def c0_def)
  have "connect jwt ch rc qs s \<in> {abort ch s1, close ch s1} \<union>
      range (\<lambda>v. set_conn ch (\<lambda>c. c\<lparr>c_user := v, c_auth := True, c_pc := Connect_group_add\<rparr>) s1)"
    by (auto simp add: connect_def Let_def s1_def c0_def split: sum.split jwt_result.split option.split)
  then have "layer_quiet s1 (connect jwt ch rc qs s)"
    using q1 q2 layer_quiet_close [of s1 ch] by auto
  with i1 show ?thesis by (rule layer_inv_quiet)
qed

lemma run_add_player_None: "run_add_player c d = (d', None) \<Longrightarrow> d' = d"
  by (auto simp: run_add_player_def dest: room_budget_add_player_None split: option.splits)

lemma layer_inv_conn_step:
  assumes inv: "layer_inv s" and gw: "gw_inv s" and st: "conn_step ch s = Some s'"
  shows "layer_inv s'"
  using st
proof (cases rule: conn_step_cases)
  case (1 c)
  have "layer_quiet s (group_add (group_name (c_room c)) ch s)" by (rule layer_quiet_ops(2))
  with 1 inv show ?thesis by (auto intro!: layer_inv_set_pc_after [where c = c] simp: group_add_def)
next
  case (2 c)
  then show ?thesis using inv by (auto intro!: layer_inv_set_pc_after [where c = c] layer_quiet_ops(1))
next
  case (3 c d' m)
  from inv have wf: "wf_db (s_db s)" by (simp add: layer_inv_def)
  show ?thesis
  proof (cases m)
    case None
    with 3 have "d' = s_db s" by (blast dest: run_add_player_None)
    with 3 None inv show ?thesis by (auto intro!: layer_inv_set_pc_after [where c = c] layer_quiet_refl)
  next
    case (Some e)
    with 3 obtain u where u: "c_user c = Some u" and ap: "add_player_to_game (c_room c) u (s_db s) = (d', Some e)"
      by (auto simp: run_add_player_def split: option.splits)
    from add_player_wf [OF wf, of "c_room c" u] ap have wf': "wf_db d'" by simp
    from room_budget_add_player [OF wf ap] have "room_budget d' (c_room c) = Suc (room_budget (s_db s) (c_room c))"
      and "\<forall>r. r \<noteq> c_room c \<longrightarrow> room_budget d' r = room_budget (s_db s) r" by blast+
    with 3 Some inv wf' show ?thesis by (auto intro: layer_inv_start)
  qed
next
  case (4 c m)
  with inv gw show ?thesis by (auto intro: layer_inv_finish)
next
  case (5 c e)
  from 5 obtain c' where "s_conns (close ch s) ch = Some c'" "c_pc c' = c_pc c" by (metis close_conn)
  with 5 inv show ?thesis by (auto intro!: layer_inv_set_pc_after [where c = c'] layer_quiet_close)
next
  case (6 c)
  with inv show ?thesis by (auto intro!: layer_inv_set_pc_after [where c = c] layer_quiet_refl)
next
  case (7 c m)
  with inv show ?thesis by (auto intro!: layer_inv_set_pc_after [where c = c] layer_quiet_refl)
next
  case (8 c m)
  with inv show ?thesis by (auto intro!: layer_inv_set_pc_after [where c = c] layer_quiet_ops(1))
next
  case (9 c p d' m)
  from inv have wf: "wf_db (s_db s)" by (simp add: layer_inv_def)
  show ?thesis
  proof (cases "c_user c")
    case None
    with 9 have "d' = s_db s" "m = None" by (auto simp: run_make_move_def)
    with 9 inv show ?thesis by (auto intro!: layer_inv_set_pc_after [where c = c] layer_quiet_refl)
  next
    case (Some u)
    with 9 have mm: "make_move (c_room c) u p (s_db s) = (d', m)" by (simp add: run_make_move_def)
    from make_move_wf [OF wf, of "c_room c" u p] mm have wf': "wf_db d'" by simp
    from room_budget_make_move [OF wf mm] show ?thesis
    proof
      assume "d' = s_db s \<and> m = None"
      with 9 inv show ?thesis by (auto intro!: layer_inv_set_pc_after [where c = c] layer_quiet_refl)
    next
      assume b: "room_budget d' (c_room c) = Suc (room_budget (s_db s) (c_room c)) \<and>
          (\<forall>r. r \<noteq> c_room c \<longrightarrow> room_budget d' r = room_budget (s_db s) r)"
      show ?thesis
      proof (cases m)
        case None
        have "room_budget (s_db s) r \<le> room_budget d' r" for r using b by (cases "r = c_room c") auto
        then have "layer_quiet s (s\<lparr>s_db := d'\<rparr>)" using wf' by (intro layer_quiet_db)
        with 9 None inv show ?thesis by (auto intro!: layer_inv_set_pc_after [where c = c])
      next
        case (Some e)
        with 9 b inv wf' show ?thesis by (auto intro: layer_inv_start)
      qed
    qed
  qed
next
  case (10 c m)
  with inv gw show ?thesis by (auto intro: layer_inv_finish)
next
  case (11 c e es)
  let ?s1 = "s\<lparr>s_inbox := (s_inbox s)(ch := es)\<rparr>"
  have "layer_quiet s ?s1" using 11(3) by (rule layer_quiet_pop)
  moreover have "layer_quiet ?s1 (dispatch ch c e ?s1)" using 11 by (intro layer_quiet_dispatch) simp_all
  ultimately show ?thesis using 11 inv by (blast intro: layer_inv_quiet layer_quiet_trans)
qed

lemma layer_inv_sys_step:
  assumes "sys_step jwt s s'" and inv: "layer_inv s" and gw: "gw_inv s"
  shows "layer_inv s'"
  using assms(1)
proof (cases rule: sys_step.cases)
  case (open_socket ch rc qs)
  with inv gw show ?thesis by (simp add: layer_inv_connect)
next
  case (client_send ch w)
  have "layer_quiet s (push_event ch (WsReceive w) s)" by (rule layer_quiet_ops(4)) (simp add: is_layer_msg_def)
  with client_send inv show ?thesis by (simp add: layer_inv_quiet)
next
  case (client_closes ch c)
  have "layer_quiet s (push_event ch WsDisconnect s)" by (rule layer_quiet_ops(4)) (simp add: is_layer_msg_def)
  moreover have "layer_quiet (push_event ch WsDisconnect s)
      (set_conn ch (\<lambda>c. c\<lparr>c_open := False\<rparr>) (push_event ch WsDisconnect s))"
    by (rule layer_quiet_set_conn) simp
  ultimately show ?thesis using client_closes inv
    by (auto simp: client_close_def intro: layer_inv_quiet layer_quiet_trans)
next
  case (run ch)
  with inv gw show ?thesis by (blast intro: layer_inv_conn_step)
next
  case (http_create u draws d' r)
  from inv have wf: "wf_db (s_db s)" by (simp add: layer_inv_def)
  have "layer_quiet s (s\<lparr>s_db := d'\<rparr>)"
    using create_game_wf [OF wf http_create(2)] room_budget_create [OF wf http_create(2)]
    by (intro layer_quiet_db) simp_all
  with http_create inv show ?thesis by (blast intro: layer_inv_quiet)
qed

lemma layer_inv_reach:
  assumes wf: "wf_db d0"
  shows "gw_reach jwt d0 s \<Longrightarrow> layer_inv s"
proof (induction rule: gw_reach.induct)
  case init
  have "{x. bcast_room (s_conns (init_sys d0) x) = Some r} = {}" for r
    by (simp add: init_sys_def bcast_room_def)
  with wf show ?case by (simp add: layer_inv_def init_sys_def inflight_def)
next
  case (step s s')
  then show ?case by (blast intro: layer_inv_sys_step gw_reach_inv)
qed

lemma room_budget_le:
  assumes "wf_db d"
  shows "room_budget d r \<le> 10"
proof (cases "get_game r d")
  case (Inl e)
  then show ?thesis by (simp add: room_budget_def)
next
  case (Inr g)
  from get_game_Inr [OF Inr] assms have "wf_game g"
    and len: "length (game_moves d (gid g)) = count_list (board g) MARK_X + count_list (board g) MARK_O"
    by (auto dest: wf_db_game)
  then have "marks_ok (board g)" by (simp add: wf_game_def)
  then have "count_list (board g) MARK_X + count_list (board g) MARK_O \<le> 9"
    using count_marks_total [of "board g"] by (simp add: marks_ok_def)
  with len Inr show ?thesis by (simp add: room_budget_def)
qed

lemma group_send_cap_eq:
  "(\<forall>x \<in> s_groups s gr. layer_pending s x < cap) \<Longrightarrow> group_send_cap cap gr m s = group_send gr m s"
  by (auto simp: group_send_cap_def group_send_def fun_eq_iff)


section \<open>Properties\<close>

text \<open>
  C20.  The channel layer never fills up: in every state the websocket
  system reaches from a well-formed database, each consumer's channel holds
  at most ten undelivered group messages (one \<open>player_joined\<close> and one per
  move of its room's game), so whenever a consumer broadcasts, every
  member of the group has fewer than ten queued and a layer with capacity
  ten or more (Channels' default is 100) delivers the broadcast to all of
  them: the capacity check of \<open>group_send\<close> never drops a message.
\<close>

theorem layer_never_full:
  assumes wf: "wf_db d0" and r: "gw_reach jwt d0 s"
  shows "(\<forall>x. layer_pending s x \<le> 10) \<and>
         (\<forall>ch c m cap. s_conns s ch = Some c \<longrightarrow>
            (c_pc c = Connect_broadcast m \<or> c_pc c = Receive_broadcast m) \<longrightarrow> 10 \<le> cap \<longrightarrow>
            group_send_cap cap (group_name (c_room c)) m s = group_send (group_name (c_room c)) m s)"
proof (intro conjI allI impI)
  have inv: "layer_inv s" using wf r by (rule layer_inv_reach)
  have gw: "gw_inv s" using r by (rule gw_reach_inv)
  from inv have wfs: "wf_db (s_db s)" by (simp add: layer_inv_def)
  {
    fix x
    show "layer_pending s x \<le> 10"
    proof (cases "s_conns s x")
      case None
      with gw_invD [OF gw, of x] show ?thesis by (simp add: chan_ok_def layer_pending_def)
    next
      case (Some c)
      with inv have "layer_pending s x + inflight s (c_room c) \<le> room_budget (s_db s) (c_room c)"
        unfolding layer_inv_def by blast
      with room_budget_le [OF wfs, of "c_room c"] show ?thesis by linarith
    qed
  next
    fix ch c m and cap :: nat
    assume c: "s_conns s ch = Some c" and pc: "c_pc c = Connect_broadcast m \<or> c_pc c = Receive_broadcast m"
      and cap: "10 \<le> cap"
    from inv have "finite (dom (s_conns s))" by (simp add: layer_inv_def)
    then have fin: "finite {x. bcast_room (s_conns s x) = Some (c_room c)}"
      using bcast_dom by (rule finite_subset [rotated])
    have "ch \<in> {x. bcast_room (s_conns s x) = Some (c_room c)}"
      using c pc by (auto simp: bcast_room_def)
    with fin have one: "1 \<le> inflight s (c_room c)"
      by (auto simp: inflight_def card_gt_0_iff Suc_le_eq)
    have "layer_pending s x < cap" if x: "x \<in> s_groups s (group_name (c_room c))" for x
    proof -
      from gw_inv_members [OF gw, of x] x obtain c' where c': "s_conns s x = Some c'" "c_room c' = c_room c"
        by auto
      with inv have "layer_pending s x + inflight s (c_room c) \<le> room_budget (s_db s) (c_room c)"
        unfolding layer_inv_def by (metis)
      with one room_budget_le [OF wfs, of "c_room c"] cap show ?thesis by linarith
    qed
    then show "group_send_cap cap (group_name (c_room c)) m s = group_send (group_name (c_room c)) m s"
      by (blast intro: group_send_cap_eq)
  }
qed

end
