(* ===== verification/Spec2Isabelle.thy ===== *)
theory Spec2Isabelle
  imports Tasks Wire Routing Api Layer
begin

text \<open>
  A verification development of the tic-tac-toe backend
  (\<open>src/game\<close>, \<open>src/authenticate\<close>, \<open>src/tictactoe\<close>): a Django/Channels
  server in which two players create a room over HTTP, then play over one
  websocket each.

  \<^bold>\<open>The program and the theories.\<close>
  \<^item> \<open>Prelude\<close>: the Python values a JSON message decodes to, the exceptions
    the handlers raise or catch, Python's comparison and string indexing,
    Django's \<open>objects.get\<close> and \<open>save()\<close> over a table kept as a list of rows.
  \<^item> \<open>Models\<close> (\<open>src/game/models.py\<close>, \<open>src/authenticate/models.py\<close>): the
    \<open>Game\<close>, \<open>GameMove\<close> and \<open>User\<close> rows as records, the database as a record
    of three tables and the id sequence, and the invariants \<open>wf_game\<close> (one
    row: the board, the marks per player, the turn, the winner, per status)
    and \<open>wf_db\<close> (keys, foreign keys, one log entry per mark).
  \<^item> \<open>Validator\<close> (\<open>make_move\<close>, consumers.py 136--215, its decision part):
    the guard \<open>move_rejected\<close>, the winning-line loop \<open>find_winning_combo\<close>,
    the decision \<open>decide_move\<close>, and the outbound messages \<open>msg\<close>.
  \<^item> \<open>Coordinator\<close> (consumers.py 90--215): \<open>get_game_state\<close>,
    \<open>add_player_to_game\<close> and \<open>make_move\<close> as functions on the database.
    Channels runs every \<open>database_sync_to_async\<close> method on one thread, so
    each is an atomic step: the serialization point of the room.
  \<^item> \<open>Views\<close> (\<open>src/game/views.py\<close>): \<open>create_game\<close> with its redraw loop
    (the random draws are an input list: the loop's fuel), \<open>join_game\<close> and
    \<open>game_history\<close>.
  \<^item> \<open>Tasks\<close> (\<open>src/authenticate/task.py\<close>): the Celery tasks that mail an
    OTP and store it on the \<open>User\<close> row, and \<open>invalidateOTP\<close>, over the
    database, the \<open>PeriodicTask\<close> table and an outbox of mails.
  \<^item> \<open>Gateway\<close> (consumers.py 17--88, 217--222): the websocket handlers
    \<open>connect\<close>, \<open>receive\<close>, \<open>disconnect\<close>, \<open>game_message\<close> over an
    explicit system state \<open>sys\<close>: the database, the channel layer's groups,
    one consumer per channel with the \<open>await\<close> its handler stands at
    (\<open>pc\<close>), its queue of events, and the frames written to its socket.
    \<open>conn_step\<close> runs a handler from one \<open>await\<close> to the next, so
    \<open>sys_step\<close> interleaves connections exactly at the code's suspension
    points; \<open>gw_reach\<close> is the set of reachable system states and
    \<open>exec\<close> runs a concrete schedule.  The query string is parsed as the
    code parses it (\<open>query_token\<close>); the JWT signature check is a library,
    so its verdict is a parameter \<open>jwt\<close> of the system.
  \<^item> \<open>Wire\<close> (consumers.py 81--83, 94--102, 120--126, 174--208, 220): each
    message as the JSON value \<open>json.dumps\<close> writes, one encoder per dict
    literal of the code, and \<open>wire_ok\<close>, the message shapes of spec
    section 6.
  \<^item> \<open>Routing\<close> (\<open>src/tictactoe/routing.py\<close>, \<open>src/authenticate/urls.py\<close>):
    routes as the regular expressions Django compiles them to, matched
    greedily with backtracking (\<open>match_segs\<close>, first match wins in
    \<open>resolve\<close>); the \<open>ProtocolTypeRouter\<close> and \<open>URLRouter\<close> of the ASGI
    application (\<open>asgi_application\<close>), the REST routes of the account app
    and the media route \<open>static()\<close> adds under \<open>DEBUG\<close>.  The module
    \<open>game/routing.py\<close> is not in the repository; its route
    \<open>ws/game/<room_code>/\<close> is the one \<open>views.py\<close> hands out in
    \<open>websocket_url\<close>.  \<open>seg_lang\<close> is the language a route denotes,
    the specification the backtracking matcher is proved to meet.
  \<^item> \<open>Api\<close> (views.py 14--21, 55, 104): Django REST framework's dispatch
    of \<open>GameViewSet\<close>: \<open>JWTAuthentication\<close> (the \<open>Bearer\<close> header split on
    whitespace by \<open>ws_split\<close>, the access-token verdict as a parameter,
    the user lookup), \<open>IsAuthenticated\<close>, the methods each \<open>@action\<close> binds,
    then the action of \<open>Views\<close> (\<open>api_request\<close>).
  \<^item> \<open>Layer\<close> (consumers.py 40--43, 75--78): the channel layer's
    per-channel capacity (\<open>group_send_cap\<close>), and the invariant
    \<open>layer_inv\<close> that bounds every queue by its room's broadcast budget
    (\<open>room_budget\<close>: one \<open>player_joined\<close>, one message per move).
  \<^item> This theory: \<open>db_step\<close>, one atomic handler call on the database
    (create, attach, move), the reachable databases, the schedules of the
    scenarios, and the properties that span the components.

  \<^bold>\<open>Fuel and bounds.\<close>  The redraw loop of \<open>create_game\<close> takes its
  random codes as a list; \<open>create_game_returns\<close> shows that a list holding
  one unused code is enough.  \<open>run_conn n\<close> runs one consumer \<open>n\<close> steps:
  four steps finish \<open>connect\<close> to a missing room, five a reconnect, six a
  join (one per \<open>await\<close>), two a move and its broadcast.  In general
  \<open>conn_weight\<close> (a weight per \<open>await\<close> point plus one per queued event,
  four for a frame that may lead to a move and its broadcast) bounds the
  steps a consumer needs to run dry (\<open>consumer_drains\<close>): every step
  lowers it, so no fuel is ever short for a run of that length.  The
  bound ten on a layer queue (\<open>layer_never_full\<close>) is one
  \<open>player_joined\<close> plus the nine cells of a board.

  \<^bold>\<open>Plan.\<close>  Modelled: the match state and its invariant, the move
  handler and its validator, the attach handler, the views and their REST
  dispatch, the websocket gateway with the channel layer and its capacity,
  the wire format, the URL routing and the OTP tasks.
  \<^bold>\<open>Not modelled.\<close>  E-mail sending and templates (I/O); JWT signature
  checking (an external collaborator: the model takes its verdict as
  input, for the consumer and for the REST views); timestamps (no handler
  reads them); the layer's message and group expiry (time);
  \<open>UserProfile\<close> (no code of the repository reads or writes it);
  \<open>user.is_active\<close>, content negotiation and throttling of the REST views
  (nothing in the repository sets them); the project's \<open>ROOT_URLCONF\<close>
  and \<open>game/routing.py\<close> (not in the repository: account routes are paths
  below their include prefix, the websocket route is the one the views
  hand out); the scope's \<open>root_path\<close>, taken empty; the imports and class
  headers of the modules, which carry no behaviour.

  \<^bold>\<open>What is proved.\<close>  Every reachable database is well formed
  (\<open>reachable_wf\<close>), and so is the database of every state of the whole
  websocket system, which only changes by atomic handler calls
  (\<open>gw_reach_db_reachable\<close>); a handler call only moves a row forward:
  status never regresses, a completed game never changes, the second player
  is set once, a mark is never erased, and the move log is append-only; a
  move changes anything only when it is the legal move of the player whose
  turn it is, and the same player cannot move twice in a row.  The members
  of a room's group are exactly its live authenticated connections
  (\<open>gw_reach_members\<close>); a forged token is never accepted; an accepted move
  reaches every member once; a step of a consumer of one room leaves every
  other room's row, group and consumers alone (\<open>rooms_independent\<close>); and
  every consumer runs dry in a bounded number of its own steps
  (\<open>consumer_drains\<close>).  Every message the handlers build has its
  protocol shape (\<open>handler_messages_wire_ok\<close>), and the URL a new room is
  announced with is routed back to the consumer with that room's code
  (\<open>created_url_routes\<close>) by a matcher that meets Python's regular
  expression semantics, greedy captures included
  (\<open>match_segs_regex_semantics\<close>).  A REST request that does not
  authenticate is answered 401 before its method is looked at
  (\<open>api_requires_login\<close>), and no channel-layer queue ever holds more than
  ten messages, so the layer's capacity never drops a broadcast
  (\<open>layer_never_full\<close>).  The development also shows where the code
  departs from the spec: illegal moves and unknown actions get no reply,
  two moves for one turn can both be accepted, broadcasts can overtake each
  other, a missing room is not closed, a connection without a query string
  crashes the consumer, every player name in every message is null, a
  boolean position is echoed as \<open>true\<close> in \<open>move_made\<close>, and
  the OTP mail goes out before the account is looked up.  The OTP stored is
  always six digits and reads back as the mailed code.
\<close>

section \<open>The database as a state machine\<close>

text \<open>One handler call: a room created by the view, an attach, a move.\<close>

inductive db_step :: "db \<Rightarrow> db \<Rightarrow> bool" where
  create: "create_game u draws d = Some (d', r) \<Longrightarrow> db_step d d'"
| attach: "db_step d (fst (add_player_to_game rc u d))"
| move: "db_step d (fst (make_move rc u p d))"

definition init_db :: "user list \<Rightarrow> db" where
  "init_db us = \<lparr>games = [], users = us, moves = [], game_seq = 1\<rparr>"

inductive reachable :: "db \<Rightarrow> bool" where
  init: "distinct (map user_id us) \<Longrightarrow> reachable (init_db us)"
| step: "reachable d \<Longrightarrow> db_step d d' \<Longrightarrow> reachable d'"

inductive_cases db_stepE: "db_step d d'"

definition row_evolves :: "game \<Rightarrow> game \<Rightarrow> bool" where
  "row_evolves g g' \<longleftrightarrow>
     gid g' = gid g \<and> room_code g' = room_code g \<and> player1 g' = player1 g \<and>
     status g \<le> status g' \<and> (status g \<noteq> COMPLETED \<or> g' = g) \<and>
     (player2 g = None \<or> player2 g' = player2 g) \<and>
     list_all (\<lambda>j. board g ! j = EMPTY \<or> board g' ! j = board g ! j) [0..<9]"

definition demo_users :: "user list" where
  "demo_users =
     [\<lparr>user_id = 1, email = ''p1@example.com'', verification_status = ''verified'',
       otp = None, otp_validity = False\<rparr>,
      \<lparr>user_id = 2, email = ''p2@example.com'', verification_status = ''verified'',
       otp = None, otp_validity = False\<rparr>,
      \<lparr>user_id = 3, email = ''p3@example.com'', verification_status = ''verified'',
       otp = None, otp_validity = False\<rparr>]"

definition demo_room :: room_code where
  "demo_room = ''AB12CD''"

definition demo_created :: db where
  "demo_created = fst (the (create_game 1 [demo_room] (init_db demo_users)))"

definition demo_joined :: db where
  "demo_joined = fst (add_player_to_game demo_room 2 demo_created)"

text \<open>A sequence of moves in one room, one atomic call after the other.\<close>

fun play :: "room_code \<Rightarrow> (uid \<times> pyval) list \<Rightarrow> db \<Rightarrow> db \<times> msg option list" where
  "play rc [] d = (d, [])"
| "play rc ((u, p) # ms) d =
     (let (d1, m) = make_move rc u p d; (d2, out) = play rc ms d1 in (d2, m # out))"

text \<open>
  The board a move log describes: each \<open>GameMove\<close> row, in log order,
  writes its player's mark at its position on the initial board.
\<close>

definition replay :: "game \<Rightarrow> game_move list \<Rightarrow> string" where
  "replay g ms = foldl (\<lambda>b m. b[nat (gm_position m) := mark_of g (gm_player m)]) empty_board ms"

definition board_replays :: "db \<Rightarrow> bool" where
  "board_replays d \<longleftrightarrow> list_all (\<lambda>g. board g = replay g (game_moves d (gid g))) (games d)"

section \<open>Schedules of the whole system\<close>

text \<open>
  A verifier that knows three tokens, and the schedules the scenarios
  run: player1 creates the room and connects on channel \<open>a\<close>, player2
  on \<open>b\<close>, user 3 watches on \<open>c\<close>, and a forged token is tried on
  \<open>d\<close>; each consumer runs its \<open>connect\<close> to the end and delivers the
  join message.
\<close>

definition demo_jwt :: "string \<Rightarrow> jwt_result" where
  "demo_jwt tok =
     (if tok = ''t1'' then Payload (Some (PyInt 1))
      else if tok = ''t2'' then Payload (Some (PyInt 2))
      else if tok = ''t3'' then Payload (Some (PyInt 3))
      else InvalidToken)"

definition demo_setup :: "action list" where
  "demo_setup =
     [ACreate 1 [demo_room],
      AOpen ''a'' demo_room ''token=t1'', ARun ''a'', ARun ''a'', ARun ''a'', ARun ''a'', ARun ''a'',
      AOpen ''b'' demo_room ''token=t2'', ARun ''b'', ARun ''b'', ARun ''b'', ARun ''b'', ARun ''b'', ARun ''b'',
      AOpen ''c'' demo_room ''token=t3'', ARun ''c'', ARun ''c'', ARun ''c'', ARun ''c'', ARun ''c'',
      ARun ''a'', ARun ''b'', AOpen ''d'' demo_room ''token=forged'']"

definition demo_sys :: sys where
  "demo_sys = the (exec demo_jwt demo_setup (init_sys (init_db demo_users)))"

definition demo_after :: "action list \<Rightarrow> sys" where
  "demo_after as = the (exec demo_jwt as demo_sys)"

definition demo_join :: sys where
  "demo_join = the (exec demo_jwt
     [ACreate 1 [demo_room], AOpen ''a'' demo_room ''token=t1'',
      ARun ''a'', ARun ''a'', ARun ''a'', ARun ''a'', ARun ''a'', AOpen ''b'' demo_room ''token=t2'']
     (init_sys (init_db demo_users)))"

definition move_frame :: "int \<Rightarrow> wire_in" where
  "move_frame i = Json (PyDict [(''action'', PyStr ''make_move''), (''position'', PyInt i)])"

definition demo_race :: "action list" where
  "demo_race =
     [ASend ''a'' (move_frame 4), ASend ''b'' (move_frame 0),
      ARun ''a'', ARun ''a'', ARun ''b'', ARun ''b'', ARun ''b'', ARun ''a'']"


section \<open>Lemmas\<close>

lemma init_db_wf: "distinct (map user_id us) \<Longrightarrow> wf_db (init_db us)"
  by (simp add: init_db_def wf_db_def)

lemma db_step_wf: "db_step d d' \<Longrightarrow> wf_db d \<Longrightarrow> wf_db d'"
  by (induction rule: db_step.induct) (auto intro: create_game_wf add_player_wf make_move_wf)

lemma reachable_wf_db: "reachable d \<Longrightarrow> wf_db d"
proof (induction rule: reachable.induct)
  case (init us)
  then show ?case by (rule init_db_wf)
next
  case (step d d')
  then show ?case by (blast intro: db_step_wf)
qed

lemma row_evolves_refl: "row_evolves g g"
  by (simp add: row_evolves_def list_all_iff)

lemma save_rows_forward:
  assumes dist: "distinct (map gid (games d))" and g0: "g0 \<in> set (games d)"
    and ev: "row_evolves g0 g'" and g: "g \<in> set (games d)"
  shows "\<exists>h \<in> set (games (save_game g' d)). row_evolves g h"
proof (cases "gid g = gid g0")
  case True
  with dist g0 g have "g = g0" by (blast dest: distinct_key_eq)
  moreover from ev have "gid g' = gid g0" by (simp add: row_evolves_def)
  then have "g' \<in> set (games (save_game g' d))"
    by (simp add: save_game_def db_save_mem [OF g0])
  ultimately show ?thesis using ev by blast
next
  case False
  from ev have "gid g' = gid g0" by (simp add: row_evolves_def)
  with False g have "g \<in> set (games (save_game g' d))"
    by (simp add: save_game_def db_save_other)
  then show ?thesis by (blast intro: row_evolves_refl)
qed

lemma place_evolves:
  assumes "i < 9" and "board g ! i = EMPTY"
  shows "list_all (\<lambda>j. board g ! j = EMPTY \<or> (board g)[i := s] ! j = board g ! j) [0..<9]"
  unfolding list_all_iff
proof
  fix j
  show "board g ! j = EMPTY \<or> (board g)[i := s] ! j = board g ! j"
    using assms by (cases "i = j") auto
qed

lemma play_reachable: "reachable d \<Longrightarrow> reachable (fst (play rc ms d))"
proof (induction ms arbitrary: d)
  case Nil
  then show ?case by simp
next
  case (Cons m ms)
  obtain u p where m: "m = (u, p)" by fastforce
  from Cons.prems have "reachable (fst (make_move rc u p d))"
    by (blast intro: reachable.step db_step.move)
  then have "reachable (fst (play rc ms (fst (make_move rc u p d))))" by (rule Cons.IH)
  then show ?case by (simp add: m split_def Let_def)
qed

lemma demo_create:
  "create_game 1 [demo_room] (init_db demo_users) =
     Some (demo_created, Created demo_room None PENDING (websocket_url demo_room))"
  by (simp add: create_game_def demo_created_def init_db_def demo_room_def username_def)

lemma demo_created_reachable: "reachable demo_created"
proof -
  have "distinct (map user_id demo_users)" by (simp add: demo_users_def)
  then have r0: "reachable (init_db demo_users)" by (rule reachable.init)
  from demo_create have "db_step (init_db demo_users) demo_created" by (rule db_step.create)
  with r0 show ?thesis by (rule reachable.step)
qed

lemma demo_joined_reachable: "reachable demo_joined"
  unfolding demo_joined_def by (blast intro: reachable.step db_step.attach demo_created_reachable)

lemma demo_init_reachable: "reachable (init_db demo_users)"
  by (rule reachable.init) (simp add: demo_users_def)

lemma demo_sys_exec: "exec demo_jwt demo_setup (init_sys (init_db demo_users)) = Some demo_sys"
proof -
  have "exec demo_jwt demo_setup (init_sys (init_db demo_users)) \<noteq> None" by code_simp
  then show ?thesis by (auto simp: demo_sys_def)
qed

lemma demo_sys_reach: "gw_reach demo_jwt (init_db demo_users) demo_sys"
  using demo_sys_exec gw_reach.init by (rule exec_reach)

lemma demo_exec_reach:
  assumes "exec demo_jwt as demo_sys = Some s"
  shows "gw_reach demo_jwt (init_db demo_users) s"
  by (rule exec_reach [OF assms demo_sys_reach])

lemma demo_sys_conns:
  "s_conns demo_sys ''c'' = Some \<lparr>c_room = demo_room, c_user = Some 3, c_auth = True, c_pc = Idle, c_open = True\<rparr>"
  "s_conns demo_sys ''d'' = Some \<lparr>c_room = demo_room, c_user = None, c_auth = False, c_pc = Idle, c_open = False\<rparr>"
  by code_simp+

lemma replay_snoc:
  "replay g (ms @ [m]) = (replay g ms)[nat (gm_position m) := mark_of g (gm_player m)]"
  by (simp add: replay_def)

lemma replay_cong: "player1 g' = player1 g \<Longrightarrow> replay g' ms = replay g ms"
  by (simp add: replay_def mark_of_def)

lemma game_moves_snoc:
  "game_moves (d\<lparr>moves := moves d @ [m]\<rparr>) k = game_moves d k @ (if gm_game m = k then [m] else [])"
  by (simp add: game_moves_def)

lemma game_moves_save [simp]: "game_moves (save_game g d) k = game_moves d k"
  by (simp add: game_moves_def save_game_def)

lemma board_replays_save:
  assumes rep: "\<forall>h \<in> set (games d). gid h \<noteq> gid g' \<longrightarrow> board h = replay h (game_moves d (gid h))"
    and new: "board g' = replay g' (game_moves d (gid g'))"
  shows "board_replays (save_game g' d)"
  unfolding board_replays_def list_all_iff
proof
  fix h assume "h \<in> set (games (save_game g' d))"
  then have "h = g' \<or> h \<in> set (games d) \<and> gid h \<noteq> gid g'"
    by (simp add: save_game_def db_save_set)
  then show "board h = replay h (game_moves (save_game g' d) (gid h))"
  proof
    assume "h = g'" with new show ?thesis by simp
  next
    assume "h \<in> set (games d) \<and> gid h \<noteq> gid g'"
    with rep show ?thesis by simp
  qed
qed

lemma db_step_replays:
  assumes st: "db_step d d'" and wf: "wf_db d" and rep: "board_replays d"
  shows "board_replays d'"
  using st
proof (cases rule: db_step.cases)
  case (create u draws r)
  then obtain rc where d': "d' = d\<lparr>games := games d @ [new_game (game_seq d) rc u], game_seq := Suc (game_seq d)\<rparr>"
    by (auto simp: create_game_def split: option.splits)
  from wf have "game_seq d \<notin> set (map gid (games d))" by (auto simp: wf_db_def list_all_iff)
  with wf have "game_moves d (game_seq d) = []"
    unfolding game_moves_def filter_empty_conv by (force simp: wf_db_def list_all_iff)
  with rep show ?thesis
    by (auto simp: d' board_replays_def game_moves_def new_game_def replay_def)
next
  case (attach rc u)
  from add_player_cases [of rc u d] show ?thesis
  proof
    assume "add_player_to_game rc u d = (d, None)"
    with attach rep show ?thesis by simp
  next
    assume "\<exists>g x. get_game rc d = Inr g \<and> get_user u d = Inr x \<and> player2 g = None \<and> player1 g \<noteq> u \<and>
      add_player_to_game rc u d =
        (save_game (g\<lparr>player2 := Some u, status := IN_PROGRESS, current_turn := Some (player1 g)\<rparr>) d,
         Some (PlayerJoined (username u) IN_PROGRESS (username (player1 g)) (board g)))"
    then obtain g where gg: "get_game rc d = Inr g" and
      d': "d' = save_game (g\<lparr>player2 := Some u, status := IN_PROGRESS, current_turn := Some (player1 g)\<rparr>) d"
      using attach by auto
    from gg have g: "g \<in> set (games d)" by (auto dest: get_game_Inr)
    with rep have "board g = replay g (game_moves d (gid g))" by (simp add: board_replays_def list_all_iff)
    moreover have "replay (g\<lparr>player2 := Some u, status := IN_PROGRESS, current_turn := Some (player1 g)\<rparr>) ms =
        replay g ms" for ms by (rule replay_cong) simp
    ultimately show ?thesis using rep unfolding d'
      by (intro board_replays_save) (simp_all add: board_replays_def list_all_iff)
  qed
next
  case (move rc u p)
  from make_move_cases [OF wf, of rc u p] show ?thesis
  proof
    assume "make_move rc u p d = (d, None)"
    with move rep show ?thesis by simp
  next
    assume "\<exists>g i g' m. get_game rc d = Inr g \<and> status g = IN_PROGRESS \<and> current_turn g = Some u \<and>
        py_int_of p = Some (int i) \<and> i < 9 \<and> board g ! i = EMPTY \<and>
        decide_move g u p i = Inr (g', m) \<and> wf_game g' \<and> gid g' = gid g \<and>
        room_code g' = room_code g \<and> player1 g' = player1 g \<and> player2 g' = player2 g \<and>
        board g' = (board g)[i := mark_of g u] \<and> IN_PROGRESS \<le> status g' \<and>
        make_move rc u p d =
          (save_game g' (d\<lparr>moves := moves d @ [\<lparr>gm_game = gid g, gm_player = u, gm_position = int i\<rparr>]\<rparr>), m)"
    then obtain g i g' m where gg: "get_game rc d = Inr g" and id: "gid g' = gid g"
      and p1: "player1 g' = player1 g" and b: "board g' = (board g)[i := mark_of g u]"
      and d': "d' = save_game g' (d\<lparr>moves := moves d @ [\<lparr>gm_game = gid g, gm_player = u, gm_position = int i\<rparr>]\<rparr>)"
      using move by auto
    let ?d1 = "d\<lparr>moves := moves d @ [\<lparr>gm_game = gid g, gm_player = u, gm_position = int i\<rparr>]\<rparr>"
    from gg have g: "g \<in> set (games d)" by (auto dest: get_game_Inr)
    have others: "\<forall>h \<in> set (games ?d1). gid h \<noteq> gid g' \<longrightarrow> board h = replay h (game_moves ?d1 (gid h))"
      using rep id by (simp add: board_replays_def list_all_iff game_moves_snoc)
    from rep g have "board g = replay g (game_moves d (gid g))" by (simp add: board_replays_def list_all_iff)
    then have "board g' = replay g' (game_moves ?d1 (gid g'))"
      using id p1 b by (simp add: game_moves_snoc replay_snoc replay_cong [OF p1] mark_of_def)
    with others show ?thesis unfolding d' by (rule board_replays_save)
  qed
qed

lemma reachable_replays: "reachable d \<Longrightarrow> board_replays d"
proof (induction rule: reachable.induct)
  case (init us)
  then show ?case by (simp add: init_db_def board_replays_def)
next
  case (step d d')
  then show ?case by (blast intro: db_step_replays reachable_wf_db)
qed

lemma gw_reach_reachable: "gw_reach jwt d0 s \<Longrightarrow> reachable d0 \<Longrightarrow> reachable (s_db s)"
proof (induction rule: gw_reach.induct)
  case init
  then show ?case by (simp add: init_sys_def)
next
  case (step s s')
  then have r: "reachable (s_db s)" by blast
  from sys_step_db [OF step.hyps(2)] show ?case
    by (elim disjE exE) (auto simp: r intro: reachable.step [OF r] db_step.intros)
qed

section \<open>Properties\<close>

text \<open>
  C1.  Every database reachable from an empty one by handler calls is well
  formed: each game row satisfies the match-state invariant of spec
  section 3 (a 9-cell board, X level with O or one mark ahead, the turn with
  the player who did not move last, a winning line exactly when completed
  with a winner, a full board without a line for a draw) and its move log
  has one entry per mark on the board.
\<close>

theorem reachable_wf:
  assumes "reachable d" and "g \<in> set (games d)"
  shows "wf_game g \<and> length (game_moves d (gid g)) =
           count_list (board g) MARK_X + count_list (board g) MARK_O"
  using reachable_wf_db [OF assms(1)] assms(2) by (rule wf_db_game)

theorem reachable_wf_witness:
  "reachable demo_joined \<and>
   new_game 1 demo_room 1\<lparr>player2 := Some 2, status := IN_PROGRESS, current_turn := Some 1\<rparr>
     \<in> set (games demo_joined) \<and>
   wf_game (new_game 1 demo_room 1\<lparr>player2 := Some 2, status := IN_PROGRESS, current_turn := Some 1\<rparr>)"
proof -
  have m: "new_game 1 demo_room 1\<lparr>player2 := Some 2, status := IN_PROGRESS, current_turn := Some 1\<rparr>
     \<in> set (games demo_joined)"
    by code_simp
  from reachable_wf [OF demo_joined_reachable m] m demo_joined_reachable show ?thesis by simp
qed

text \<open>
  C5.  A handler call only moves a game forward: every row of a well-formed
  database is still there after the call, with the same id, room code and
  player1, a status that did not regress (spec: status is monotonic), the
  same second player once one is set, every mark still in place, and,
  once completed, no change at all (a completed match is immutable).
\<close>

theorem db_step_rows_forward:
  assumes wf: "wf_db d" and st: "db_step d d'" and g: "g \<in> set (games d)"
  shows "\<exists>g' \<in> set (games d'). row_evolves g g'"
  using st
proof (cases rule: db_step.cases)
  case (create u draws r)
  then have "games d' = games d @ [new_game (game_seq d) (the (pick_room_code (games d) draws)) u]"
    by (auto simp: create_game_def split: option.splits)
  with g show ?thesis by (auto intro: row_evolves_refl)
next
  case (attach rc u)
  from wf have dist: "distinct (map gid (games d))" by (simp add: wf_db_def)
  show ?thesis
  proof (cases "add_player_to_game rc u d = (d, None)")
    case True
    with attach g show ?thesis by (auto intro: row_evolves_refl)
  next
    case False
    with add_player_cases [of rc u d] obtain g0 x where g0: "get_game rc d = Inr g0"
      and p2: "player2 g0 = None" "player1 g0 \<noteq> u"
      and ap: "add_player_to_game rc u d =
        (save_game (g0\<lparr>player2 := Some u, status := IN_PROGRESS, current_turn := Some (player1 g0)\<rparr>) d,
         Some (PlayerJoined (username u) IN_PROGRESS (username (player1 g0)) (board g0)))"
      by blast
    from g0 have g0in: "g0 \<in> set (games d)" by (simp add: get_game_Inr)
    with wf have "wf_game g0" by (simp add: wf_db_game)
    from join_wf_game(1) [OF this p2] have "status g0 = PENDING" .
    with p2 have "row_evolves g0 (g0\<lparr>player2 := Some u, status := IN_PROGRESS,
        current_turn := Some (player1 g0)\<rparr>)"
      by (simp add: row_evolves_def less_eq_status_def list_all_iff)
    from save_rows_forward [OF dist g0in this g] ap attach show ?thesis by simp
  qed
next
  case (move rc u p)
  from wf have dist: "distinct (map gid (games d))" by (simp add: wf_db_def)
  from make_move_cases [OF wf, of rc u p] show ?thesis
  proof
    assume "make_move rc u p d = (d, None)"
    with move g show ?thesis by (auto intro: row_evolves_refl)
  next
    assume "\<exists>g i g' m. get_game rc d = Inr g \<and> status g = IN_PROGRESS \<and> current_turn g = Some u \<and>
        py_int_of p = Some (int i) \<and> i < 9 \<and> board g ! i = EMPTY \<and>
        decide_move g u p i = Inr (g', m) \<and> wf_game g' \<and> gid g' = gid g \<and>
        room_code g' = room_code g \<and> player1 g' = player1 g \<and> player2 g' = player2 g \<and>
        board g' = (board g)[i := mark_of g u] \<and> IN_PROGRESS \<le> status g' \<and>
        make_move rc u p d =
          (save_game g' (d\<lparr>moves := moves d @ [\<lparr>gm_game = gid g, gm_player = u, gm_position = int i\<rparr>]\<rparr>), m)"
    then obtain g0 i g' m where g0: "get_game rc d = Inr g0" and st0: "status g0 = IN_PROGRESS"
      and i: "i < 9" "board g0 ! i = EMPTY"
      and keys: "gid g' = gid g0" "room_code g' = room_code g0" "player1 g' = player1 g0"
        "player2 g' = player2 g0" "board g' = (board g0)[i := mark_of g0 u]" "IN_PROGRESS \<le> status g'"
      and mm: "make_move rc u p d =
          (save_game g' (d\<lparr>moves := moves d @ [\<lparr>gm_game = gid g0, gm_player = u, gm_position = int i\<rparr>]\<rparr>), m)"
      by blast
    from g0 have g0in: "g0 \<in> set (games d)" by (simp add: get_game_Inr)
    have "row_evolves g0 g'"
      using keys st0 place_evolves [OF i] by (simp add: row_evolves_def)
    from save_rows_forward [of "d\<lparr>moves := moves d @ [\<lparr>gm_game = gid g0, gm_player = u, gm_position = int i\<rparr>]\<rparr>"]
      dist g0in this g mm move
    show ?thesis by simp
  qed
qed

theorem db_step_rows_forward_witness:
  "wf_db demo_joined \<and> db_step demo_joined (fst (make_move demo_room 1 (PyInt 4) demo_joined)) \<and>
   new_game 1 demo_room 1\<lparr>player2 := Some 2, status := IN_PROGRESS, current_turn := Some 1\<rparr>
     \<in> set (games demo_joined) \<and>
   (\<exists>g' \<in> set (games (fst (make_move demo_room 1 (PyInt 4) demo_joined))).
      row_evolves (new_game 1 demo_room 1\<lparr>player2 := Some 2, status := IN_PROGRESS,
        current_turn := Some 1\<rparr>) g')"
proof -
  have wf: "wf_db demo_joined" by (rule reachable_wf_db [OF demo_joined_reachable])
  have st: "db_step demo_joined (fst (make_move demo_room 1 (PyInt 4) demo_joined))"
    by (rule db_step.move)
  have m: "new_game 1 demo_room 1\<lparr>player2 := Some 2, status := IN_PROGRESS, current_turn := Some 1\<rparr>
     \<in> set (games demo_joined)"
    by code_simp
  from db_step_rows_forward [OF wf st m] wf st m show ?thesis by blast
qed

text \<open>
  C22.  The move log is append-only: a handler call never removes, reorders
  or rewrites a \<open>GameMove\<close> row, and adds at most one.
\<close>

theorem db_step_log_append_only:
  "db_step d d' \<Longrightarrow> \<exists>ms. moves d' = moves d @ ms \<and> length ms \<le> 1"
proof (induction rule: db_step.induct)
  case (create u draws d d' r)
  then show ?case by (auto simp: create_game_def split: option.splits)
next
  case (attach d rc u)
  show ?case
    by (rule exI [of _ "[]"]) (auto simp: add_player_to_game_def save_game_def Let_def split: sum.splits)
next
  case (move d rc u p)
  show ?case
    by (auto simp: make_move_def save_game_def Let_def split: sum.splits option.splits bool.splits)
qed

theorem db_step_log_append_only_witness:
  "db_step demo_joined (fst (make_move demo_room 1 (PyInt 4) demo_joined)) \<and>
   moves (fst (make_move demo_room 1 (PyInt 4) demo_joined)) =
     moves demo_joined @ [\<lparr>gm_game = 1, gm_player = 1, gm_position = 4\<rparr>]"
proof -
  have st: "db_step demo_joined (fst (make_move demo_room 1 (PyInt 4) demo_joined))"
    by (rule db_step.move)
  have "moves (fst (make_move demo_room 1 (PyInt 4) demo_joined)) =
     moves demo_joined @ [\<lparr>gm_game = 1, gm_player = 1, gm_position = 4\<rparr>]"
    by code_simp
  with db_step_log_append_only [OF st] st show ?thesis by simp
qed

text \<open>
  C13.  In every reachable database the board of each game is the replay of
  its move log: the \<open>GameMove\<close> rows of the game, in the order they were
  written, each put its player's mark (X for player1, O otherwise) on the
  empty board.  The persisted history determines the match state.
\<close>

theorem board_is_replay:
  assumes "reachable d" and "g \<in> set (games d)"
  shows "board g = replay g (game_moves d (gid g))"
  using reachable_replays [OF assms(1)] assms(2) by (simp add: board_replays_def list_all_iff)

theorem board_is_replay_witness:
  "reachable (fst (play demo_room [(1, PyInt 4), (2, PyInt 0)] demo_joined)) \<and>
   board (hd (games (fst (play demo_room [(1, PyInt 4), (2, PyInt 0)] demo_joined)))) = ''O---X----'' \<and>
   replay (hd (games (fst (play demo_room [(1, PyInt 4), (2, PyInt 0)] demo_joined))))
     (game_moves (fst (play demo_room [(1, PyInt 4), (2, PyInt 0)] demo_joined)) 1) = ''O---X----''"
proof -
  let ?d = "fst (play demo_room [(1, PyInt 4), (2, PyInt 0)] demo_joined)"
  have r: "reachable ?d" using demo_joined_reachable by (rule play_reachable)
  have m: "hd (games ?d) \<in> set (games ?d)" "gid (hd (games ?d)) = 1"
    "board (hd (games ?d)) = ''O---X----''" by code_simp+
  from board_is_replay [OF r m(1)] m r show ?thesis by simp
qed




text \<open>
  Spec section 8, scenarios A and B: player1 attaching to their own
  pending room changes nothing and the room stays pending with no turn;
  player2 attaching starts the game, broadcasts \<open>player_joined\<close>, and
  leaves the room in progress with player1 to move.
\<close>

theorem scenario_attach:
  "add_player_to_game demo_room 1 demo_created = (demo_created, None) \<and>
   get_game demo_room demo_created = Inr (new_game 1 demo_room 1) \<and>
   snd (add_player_to_game demo_room 2 demo_created) =
     Some (PlayerJoined None IN_PROGRESS None empty_board) \<and>
   get_game demo_room demo_joined =
     Inr (new_game 1 demo_room 1\<lparr>player2 := Some 2, status := IN_PROGRESS, current_turn := Some 1\<rparr>)"
  by code_simp


text \<open>
  C33.  A completed game keeps \<open>current_turn\<close>: the handler never clears it,
  so in every reachable database a completed row still names the last mover
  (the winner, or player1 after a draw) as the player to move.
\<close>

theorem completed_turn_kept:
  assumes "reachable d" and "g \<in> set (games d)" and "status g = COMPLETED"
  shows "current_turn g \<noteq> None \<and> (winner g = None \<or> current_turn g = winner g)"
proof -
  from reachable_wf_db [OF assms(1)] assms(2) have "wf_game g" by (simp add: wf_db_game)
  with assms(3) show ?thesis by (auto simp: wf_game_def split: option.splits)
qed

theorem completed_turn_kept_witness:
  "reachable (fst (play demo_room [(1, PyInt 4), (2, PyInt 0), (1, PyInt 1), (2, PyInt 3), (1, PyInt 7)]
      demo_joined)) \<and>
   current_turn (new_game 1 demo_room 1\<lparr>player2 := Some 2, current_turn := Some 1, winner := Some 1,
            status := COMPLETED, board := ''OX-OX--X-''\<rparr>) = Some 1"
proof -
  let ?d = "fst (play demo_room [(1, PyInt 4), (2, PyInt 0), (1, PyInt 1), (2, PyInt 3), (1, PyInt 7)]
      demo_joined)"
  let ?g = "new_game 1 demo_room 1\<lparr>player2 := Some 2, current_turn := Some 1, winner := Some 1,
            status := COMPLETED, board := ''OX-OX--X-''\<rparr>"
  have r: "reachable ?d" by (rule play_reachable [OF demo_joined_reachable])
  have m: "?g \<in> set (games ?d)" by code_simp
  have c: "status ?g = COMPLETED" by (simp add: new_game_def)
  from completed_turn_kept [OF r m c] r show ?thesis by (simp add: new_game_def)
qed

text \<open>
  C12.  The websocket layer refines the database machine: in every state
  the whole system reaches (sockets opened, frames sent, consumers run at
  any interleaving of their \<open>await\<close> points, rooms created over HTTP),
  the database is one that atomic handler calls reach, hence well formed.
\<close>

theorem gw_reach_db_reachable:
  "gw_reach jwt d0 s \<Longrightarrow> reachable d0 \<Longrightarrow> reachable (s_db s)"
  by (rule gw_reach_reachable)

theorem gw_reach_db_reachable_witness: "reachable (s_db demo_sys)"
  using gw_reach_db_reachable [OF demo_sys_reach demo_init_reachable] .

text \<open>
  C21.  Broadcasts can overtake each other: player1's move at 4 is applied
  before player2's move at 0, yet the observer's consumer is handed the
  move at 0 first, because each consumer calls \<open>group_send\<close> in a step of
  its own after \<open>make_move\<close> returns.  Spec section 5 requires broadcasts
  to be enqueued in the order the mutations take effect.
\<close>

theorem scenario_broadcast_reorder:
  "\<exists>s. gw_reach demo_jwt (init_db demo_users) s \<and> map gm_position (moves (s_db s)) = [4, 0] \<and>
       s_inbox s ''c'' =
         [GameMessage (MoveMade (PyInt 0) MARK_O None ''O---X----''),
          GameMessage (MoveMade (PyInt 4) MARK_X None ''----X----'')]"
proof -
  have "map_option (\<lambda>s. (map gm_position (moves (s_db s)), s_inbox s ''c'')) (exec demo_jwt demo_race demo_sys) =
        Some ([4, 0], [GameMessage (MoveMade (PyInt 0) MARK_O None ''O---X----''),
                       GameMessage (MoveMade (PyInt 4) MARK_X None ''----X----'')])"
    by code_simp
  then show ?thesis by (auto dest: demo_exec_reach)
qed

text \<open>
  C14.  Rooms are independent (spec section 5): a step of a consumer attached
  to one room leaves the row of every other room, the channel group of
  every other room, and the queue, frames and state of every consumer
  attached to another room as they were.
\<close>

theorem rooms_independent:
  assumes r0: "reachable d0" and reach: "gw_reach jwt d0 s" and c: "s_conns s ch = Some c"
    and st: "conn_step ch s = Some s'" and ne: "rc \<noteq> c_room c"
  shows "get_game rc (s_db s') = get_game rc (s_db s) \<and>
     s_groups s' (group_name rc) = s_groups s (group_name rc) \<and>
     (\<forall>x c'. s_conns s x = Some c' \<longrightarrow> c_room c' = rc \<longrightarrow>
        s_conns s' x = Some c' \<and> s_inbox s' x = s_inbox s x \<and> s_out s' x = s_out s x)"
proof -
  have wf: "wf_db (s_db s)" using gw_reach_reachable [OF reach r0] by (rule reachable_wf_db)
  have nm: "x \<notin> s_groups s (group_name (c_room c))" if "s_conns s x = Some c'" "c_room c' = rc" for x c'
    using gw_inv_members [OF gw_reach_inv [OF reach], of x] that ne by auto
  have nx: "x \<noteq> ch" if "s_conns s x = Some c'" "c_room c' = rc" for x c'
    using that c ne by auto
  from st show ?thesis
  proof (cases rule: conn_step_cases)
    case (3 c1 d' m)
    with c have "c1 = c" by simp
    with 3 wf ne run_add_player_other [OF wf ne] show ?thesis using nx by (auto simp: set_pc_def)
  next
    case (9 c1 p d' m)
    with c have "c1 = c" by simp
    with 9 wf ne run_make_move_other [OF wf ne, of p] show ?thesis using nx by (auto simp: set_pc_def)
  next
    case (5 c1 e)
    with c have "c1 = c" by simp
    with 5 ne show ?thesis using nx close_local(1) [of _ ch s] close_local(2,3) by (auto simp: set_pc_def)
  next
    case (11 c1 e es)
    with c have "c1 = c" by simp
    with 11 ne show ?thesis using nx dispatch_local dispatch_groups dispatch_db by (auto simp: set_pc_def)
  qed (use c ne nm nx in \<open>auto simp: set_pc_def\<close>)
qed


section \<open>Witnesses of the component properties\<close>

text \<open>
  The properties of the component theories applied to the demo room:
  player1 (user 1) created room \<open>AB12CD\<close>, player2 (user 2) joined it.
\<close>

lemma demo_joined_game:
  "get_game demo_room demo_joined =
     Inr (new_game 1 demo_room 1\<lparr>player2 := Some 2, status := IN_PROGRESS, current_turn := Some 1\<rparr>)"
  by code_simp

theorem make_move_only_legal_witness:
  "make_move demo_room 1 (PyInt 4) demo_joined \<noteq> (demo_joined, None) \<and>
   (\<exists>g x i. get_game demo_room demo_joined = Inr g \<and> get_user 1 demo_joined = Inr x \<and>
      status g = IN_PROGRESS \<and> current_turn g = Some 1 \<and> py_int_of (PyInt 4) = Some i \<and>
      0 \<le> i \<and> i \<le> 8 \<and> board g ! nat i = EMPTY)"
proof -
  have h: "make_move demo_room 1 (PyInt 4) demo_joined \<noteq> (demo_joined, None)" by code_simp
  from make_move_only_legal [OF h] h show ?thesis by blast
qed

theorem make_move_one_per_turn_witness:
  "wf_db demo_joined \<and>
   make_move demo_room 1 (PyInt 4) demo_joined \<noteq> (demo_joined, None) \<and>
   make_move demo_room 1 (PyInt 5) (fst (make_move demo_room 1 (PyInt 4) demo_joined)) =
     (fst (make_move demo_room 1 (PyInt 4) demo_joined), None)"
proof -
  have wf: "wf_db demo_joined" by (rule reachable_wf_db [OF demo_joined_reachable])
  have mv: "make_move demo_room 1 (PyInt 4) demo_joined =
    (fst (make_move demo_room 1 (PyInt 4) demo_joined), snd (make_move demo_room 1 (PyInt 4) demo_joined))"
    by simp
  have acc: "(fst (make_move demo_room 1 (PyInt 4) demo_joined), snd (make_move demo_room 1 (PyInt 4) demo_joined))
      \<noteq> (demo_joined, None)"
    by code_simp
  from make_move_one_per_turn [OF wf mv acc, of "PyInt 5"] wf acc show ?thesis by simp
qed

theorem add_player_joins_witness:
  "\<exists>d'. add_player_to_game demo_room 2 demo_created =
      (d', Some (PlayerJoined None IN_PROGRESS None empty_board)) \<and>
    get_game demo_room d' =
      Inr (new_game 1 demo_room 1\<lparr>player2 := Some 2, status := IN_PROGRESS, current_turn := Some 1\<rparr>)"
proof -
  have wf: "wf_db demo_created" by (rule reachable_wf_db [OF demo_created_reachable])
  have gg: "get_game demo_room demo_created = Inr (new_game 1 demo_room 1)" by code_simp
  have st: "status (new_game 1 demo_room 1) = PENDING" by (simp add: new_game_def)
  have gu: "get_user 2 demo_created = Inr (demo_users ! 1)" by code_simp
  have ne: "(2::nat) \<noteq> player1 (new_game 1 demo_room 1)" by (simp add: new_game_def)
  from add_player_joins [OF wf gg st gu ne] show ?thesis by (auto simp: new_game_def)
qed

theorem get_game_state_names_nobody_witness:
  "get_game_state demo_room demo_joined =
     Inr (Some (GameStateMsg empty_board IN_PROGRESS None None None None)) \<and>
   gs_turn (GameStateMsg empty_board IN_PROGRESS None None None None) = None"
proof -
  have h: "get_game_state demo_room demo_joined =
     Inr (Some (GameStateMsg empty_board IN_PROGRESS None None None None))" by code_simp
  from get_game_state_names_nobody [OF h] h show ?thesis by simp
qed

theorem make_move_same_index_witness:
  "fst (make_move demo_room 1 (PyBool True) demo_joined) = fst (make_move demo_room 1 (PyInt 1) demo_joined) \<and>
   get_game demo_room (fst (make_move demo_room 1 (PyBool True) demo_joined)) =
     Inr (new_game 1 demo_room 1\<lparr>player2 := Some 2, status := IN_PROGRESS, current_turn := Some 2,
            board := ''-X-------''\<rparr>)"
proof -
  have "py_int_of (PyBool True) = py_int_of (PyInt 1)" "py_num (PyBool True) = py_num (PyInt 1)"
    by simp_all
  from make_move_same_index [OF this, of demo_room 1 demo_joined]
  have eq: "fst (make_move demo_room 1 (PyBool True) demo_joined) = fst (make_move demo_room 1 (PyInt 1) demo_joined)" .
  have "get_game demo_room (fst (make_move demo_room 1 (PyInt 1) demo_joined)) =
     Inr (new_game 1 demo_room 1\<lparr>player2 := Some 2, status := IN_PROGRESS, current_turn := Some 2,
            board := ''-X-------''\<rparr>)"
    by code_simp
  with eq show ?thesis by simp
qed

theorem create_game_new_room_witness:
  "create_game 1 [demo_room] (init_db demo_users) =
     Some (demo_created, Created demo_room None PENDING (websocket_url demo_room)) \<and>
   get_game demo_room demo_created = Inr (new_game 1 demo_room 1)"
proof -
  from create_game_new_room [OF demo_create] have
    "get_game demo_room demo_created = Inr (new_game 1 demo_room 1)"
    by (auto simp: init_db_def)
  with demo_create show ?thesis by simp
qed

theorem create_game_returns_witness:
  "list_ex (\<lambda>c. c \<notin> set (map room_code (games demo_created))) [demo_room, ''QQ34RS''] \<and>
   (\<exists>d' r. create_game 2 [demo_room, ''QQ34RS''] demo_created = Some (d', r))"
proof -
  have h: "list_ex (\<lambda>c. c \<notin> set (map room_code (games demo_created))) [demo_room, ''QQ34RS'']"
    by code_simp
  from create_game_returns [OF h] h show ?thesis by blast
qed

theorem gw_reach_members_witness:
  "''c'' \<in> s_groups demo_sys (group_name demo_room) \<and> ''d'' \<notin> s_groups demo_sys (group_name demo_room)"
  using gw_reach_members [OF demo_sys_reach, of "''c''" "group_name demo_room"]
    gw_reach_members [OF demo_sys_reach, of "''d''" "group_name demo_room"]
  by (simp add: demo_sys_conns)

theorem gw_reach_unauthenticated_witness:
  "Accepted \<notin> set (s_out demo_sys ''d'') \<and> (\<forall>gr. ''d'' \<notin> s_groups demo_sys gr)"
  using gw_reach_unauthenticated [OF demo_sys_reach demo_sys_conns(2)] by simp

lemma demo_move_state:
  "exec demo_jwt [ASend ''a'' (move_frame 4), ARun ''a''] demo_sys \<noteq> None"
  "s_conns (demo_after [ASend ''a'' (move_frame 4), ARun ''a'']) ''a'' =
     Some \<lparr>c_room = demo_room, c_user = Some 1, c_auth = True, c_pc = Receive_move (PyInt 4), c_open = True\<rparr>"
  "snd (make_move demo_room 1 (PyInt 4) (s_db (demo_after [ASend ''a'' (move_frame 4), ARun ''a'']))) =
     Some (MoveMade (PyInt 4) MARK_X None ''----X----'')"
  "s_conns (demo_after [ASend ''a'' (move_frame 4), ARun ''a'']) ''c'' =
     Some \<lparr>c_room = demo_room, c_user = Some 3, c_auth = True, c_pc = Idle, c_open = True\<rparr>"
  by code_simp+

theorem receive_move_broadcast_witness:
  "\<exists>s'. run_conn 2 ''a'' (demo_after [ASend ''a'' (move_frame 4), ARun ''a'']) = Some s' \<and>
     s_inbox s' ''c'' = s_inbox (demo_after [ASend ''a'' (move_frame 4), ARun ''a'']) ''c'' @
       [GameMessage (MoveMade (PyInt 4) MARK_X None ''----X----'')]"
proof -
  let ?s = "demo_after [ASend ''a'' (move_frame 4), ARun ''a'']"
  have r: "gw_reach demo_jwt (init_db demo_users) ?s"
    using demo_move_state(1) unfolding demo_after_def by (metis demo_exec_reach option.collapse)
  have mv: "make_move demo_room 1 (PyInt 4) (s_db ?s) =
      (fst (make_move demo_room 1 (PyInt 4) (s_db ?s)), Some (MoveMade (PyInt 4) MARK_X None ''----X----''))"
    using demo_move_state(3) by (metis prod.collapse)
  define c where "c = \<lparr>c_room = demo_room, c_user = Some 1, c_auth = True, c_pc = Receive_move (PyInt 4),
                        c_open = True\<rparr>"
  have c: "s_conns ?s ''a'' = Some c" "c_pc c = Receive_move (PyInt 4)" "c_user c = Some 1"
    "c_room c = demo_room"
    using demo_move_state(2) by (simp_all add: c_def)
  from mv have mv': "make_move (c_room c) 1 (PyInt 4) (s_db ?s) =
      (fst (make_move demo_room 1 (PyInt 4) (s_db ?s)), Some (MoveMade (PyInt 4) MARK_X None ''----X----''))"
    by (simp only: c(4))
  from receive_move_broadcast [OF r c(1-3) mv'] obtain s' where
    "run_conn 2 ''a'' ?s = Some s'" and
    "s_inbox s' ''c'' = (if \<exists>c'. s_conns ?s ''c'' = Some c' \<and> c_room c' = c_room c \<and> in_group c'
         then s_inbox ?s ''c'' @ [GameMessage (MoveMade (PyInt 4) MARK_X None ''----X----'')] else s_inbox ?s ''c'')"
    by blast
  then show ?thesis by (auto simp: c(4) demo_move_state(4) in_group_def)
qed

lemma demo_reconnect_state:
  "s_conns (demo_after [AClose ''b'', ARun ''b'', AOpen ''e'' demo_room ''token=t2'']) ''e'' =
     Some \<lparr>c_room = demo_room, c_user = Some 2, c_auth = True, c_pc = Connect_group_add, c_open = True\<rparr>"
  "get_game demo_room (s_db (demo_after [AClose ''b'', ARun ''b'', AOpen ''e'' demo_room ''token=t2''])) =
     Inr \<lparr>gid = 1, room_code = demo_room, player1 = 1, player2 = Some 2, current_turn = Some 1,
          winner = None, status = IN_PROGRESS, board = ''---------''\<rparr>"
  "s_out (demo_after [AClose ''b'', ARun ''b'', AOpen ''e'' demo_room ''token=t2'']) ''e'' = []"
  by code_simp+

theorem connect_snapshot_witness:
  "\<exists>s'. run_conn 5 ''e'' (demo_after [AClose ''b'', ARun ''b'', AOpen ''e'' demo_room ''token=t2'']) = Some s' \<and>
     s_out s' ''e'' = [Accepted, Sent (GameStateMsg ''---------'' IN_PROGRESS None None None None)]"
proof -
  define c where "c = \<lparr>c_room = demo_room, c_user = Some 2, c_auth = True, c_pc = Connect_group_add,
                        c_open = True\<rparr>"
  have c: "s_conns (demo_after [AClose ''b'', ARun ''b'', AOpen ''e'' demo_room ''token=t2'']) ''e'' = Some c"
    "c_pc c = Connect_group_add" "c_room c = demo_room"
    using demo_reconnect_state(1) by (simp_all add: c_def)
  from connect_snapshot [OF c(1,2)] demo_reconnect_state(2,3) show ?thesis
    by (auto simp: c(3) name_opt_def username_def)
qed

lemma demo_join_state:
  "wf_db (s_db demo_join)"
  "s_conns demo_join ''b'' =
     Some \<lparr>c_room = demo_room, c_user = Some 2, c_auth = True, c_pc = Connect_group_add, c_open = True\<rparr>"
  "get_game demo_room (s_db demo_join) = Inr (new_game 1 demo_room 1)"
  "get_user 2 (s_db demo_join) = Inr (demo_users ! 1)"
  "''a'' \<in> s_groups demo_join (group_name demo_room)" "s_inbox demo_join ''a'' = []"
  by code_simp+

theorem connect_join_broadcast_witness:
  "\<exists>s'. run_conn 6 ''b'' demo_join = Some s' \<and>
     s_inbox s' ''a'' = [GameMessage (PlayerJoined None IN_PROGRESS None ''---------'')]"
proof -
  define c where "c = \<lparr>c_room = demo_room, c_user = Some 2, c_auth = True, c_pc = Connect_group_add,
                        c_open = True\<rparr>"
  have c: "s_conns demo_join ''b'' = Some c" "c_pc c = Connect_group_add" "c_user c = Some 2"
    "c_room c = demo_room"
    using demo_join_state(2) by (simp_all add: c_def)
  have g: "get_game (c_room c) (s_db demo_join) = Inr (new_game 1 demo_room 1)"
    using demo_join_state(3) by (simp add: c(4))
  have "player2 (new_game 1 demo_room 1) = None" "player1 (new_game 1 demo_room 1) \<noteq> 2"
    by (simp_all add: new_game_def)
  from connect_join_broadcast [OF demo_join_state(1) c(1-3) g this demo_join_state(4)] show ?thesis
    using demo_join_state(5,6) by (auto simp: c(4) username_def new_game_def empty_board_def)
qed



theorem connect_invalid_token_witness:
  "s_out (connect demo_jwt ''x'' demo_room ''token=forged'' demo_sys) ''x'' = [Closed] \<and>
   s_db (connect demo_jwt ''x'' demo_room ''token=forged'' demo_sys) = s_db demo_sys"
proof -
  have "s_conns demo_sys ''x'' = None" "s_out demo_sys ''x'' = []" by code_simp+
  moreover have "query_token ''token=forged'' = Inr ''forged''" by (simp add: query_token_def)
  moreover have "demo_jwt ''forged'' = InvalidToken" by (simp add: demo_jwt_def)
  ultimately show ?thesis using connect_invalid_token [of demo_sys "''x''" "''token=forged''" "''forged''"] by simp
qed

lemma demo_json_state:
  "s_conns (demo_after [ASend ''c'' w]) ''c'' =
     Some \<lparr>c_room = demo_room, c_user = Some 3, c_auth = True, c_pc = Idle, c_open = True\<rparr>"
  "s_inbox (demo_after [ASend ''c'' w]) ''c'' = [WsReceive w]"
  by code_simp+

theorem receive_protocol_errors_witness:
  "map_option (\<lambda>s. s_out s ''c'') (conn_step ''c'' (demo_after [ASend ''c'' BadJson])) =
     Some (s_out (demo_after [ASend ''c'' BadJson]) ''c'' @ [Sent (ErrorMsg ''Invalid JSON format'')]) \<and>
   map_option (\<lambda>s. s_out s ''c'') (conn_step ''c'' (demo_after [ASend ''c'' (Json (PyDict [(''action'', PyStr ''resign'')]))])) =
     Some (s_out (demo_after [ASend ''c'' (Json (PyDict [(''action'', PyStr ''resign'')]))]) ''c'')"
  using receive_protocol_errors [OF demo_json_state(1) _ demo_json_state(2), of BadJson]
    receive_protocol_errors [OF demo_json_state(1) _ demo_json_state(2),
      of "Json (PyDict [(''action'', PyStr ''resign'')])"]
  by (simp_all add: dict_get_def)

theorem game_history_lists_games_witness:
  "\<exists>hs. game_history 2 demo_joined = History hs \<and> map h_room_code hs = [demo_room]"
proof -
  have "distinct (map user_id (users demo_joined))"
    "\<forall>g \<in> set (games demo_joined). plays_in 2 g \<longrightarrow> users_known demo_joined g"
    "map room_code (filter (plays_in 2) (games demo_joined)) = [demo_room]"
    by code_simp+
  then show ?thesis using game_history_lists_games [of demo_joined 2] by auto
qed

lemma demo_two_rooms_state:
  "exec demo_jwt [ACreate 2 [''QQ34RS''], AOpen ''m'' ''QQ34RS'' ''token=t2''] demo_sys \<noteq> None"
  "s_conns (demo_after [ACreate 2 [''QQ34RS''], AOpen ''m'' ''QQ34RS'' ''token=t2'']) ''m'' =
     Some \<lparr>c_room = ''QQ34RS'', c_user = Some 2, c_auth = True, c_pc = Connect_group_add, c_open = True\<rparr>"
  "conn_step ''m'' (demo_after [ACreate 2 [''QQ34RS''], AOpen ''m'' ''QQ34RS'' ''token=t2'']) \<noteq> None"
  by code_simp+

theorem rooms_independent_witness:
  "\<exists>s'. conn_step ''m'' (demo_after [ACreate 2 [''QQ34RS''], AOpen ''m'' ''QQ34RS'' ''token=t2'']) = Some s' \<and>
     s_groups s' (group_name demo_room) =
       s_groups (demo_after [ACreate 2 [''QQ34RS''], AOpen ''m'' ''QQ34RS'' ''token=t2'']) (group_name demo_room)"
proof -
  let ?s = "demo_after [ACreate 2 [''QQ34RS''], AOpen ''m'' ''QQ34RS'' ''token=t2'']"
  have r: "gw_reach demo_jwt (init_db demo_users) ?s"
    using demo_two_rooms_state(1) unfolding demo_after_def by (metis demo_exec_reach option.collapse)
  from demo_two_rooms_state(3) obtain s' where st: "conn_step ''m'' ?s = Some s'" by blast
  have ne: "demo_room \<noteq> c_room \<lparr>c_room = ''QQ34RS'', c_user = Some 2, c_auth = True, c_pc = Connect_group_add,
      c_open = True\<rparr>" by (simp add: demo_room_def)
  from rooms_independent [OF demo_init_reachable r demo_two_rooms_state(2) st ne] st show ?thesis by blast
qed

theorem consumer_drains_witness:
  "\<exists>n s'. n \<le> conn_weight (demo_after [ASend ''a'' (move_frame 4)]) ''a'' \<and>
     run_conn n ''a'' (demo_after [ASend ''a'' (move_frame 4)]) = Some s' \<and> conn_step ''a'' s' = None"
proof -
  have "s_conns (demo_after [ASend ''a'' (move_frame 4)]) ''a'' \<noteq> None" by code_simp
  from consumer_drains [OF this] show ?thesis by blast
qed

theorem handler_messages_wire_ok_witness:
  "snd (make_move demo_room 1 (PyInt 4) demo_joined) \<noteq> None \<and>
   wire_ok (msg_json (the (snd (make_move demo_room 1 (PyInt 4) demo_joined)))) \<and>
   wire_ok (msg_json (the (snd (add_player_to_game demo_room 2 demo_created))))"
proof -
  have wf: "wf_db demo_joined" by (rule reachable_wf_db [OF demo_joined_reachable])
  have wf0: "wf_db demo_created" by (rule reachable_wf_db [OF demo_created_reachable])
  have nb: "\<forall>b. PyInt 4 \<noteq> PyBool b" by simp
  have mm: "snd (make_move demo_room 1 (PyInt 4) demo_joined) \<noteq> None" by code_simp
  have ap: "snd (add_player_to_game demo_room 2 demo_created) \<noteq> None" by code_simp
  from handler_messages_wire_ok [OF wf nb, of demo_room 1] mm
  have "wire_ok (msg_json (the (snd (make_move demo_room 1 (PyInt 4) demo_joined))))" by auto
  moreover from handler_messages_wire_ok [OF wf0 nb, of demo_room 2] ap
  have "wire_ok (msg_json (the (snd (add_player_to_game demo_room 2 demo_created))))" by auto
  ultimately show ?thesis using mm by blast
qed


theorem api_requires_login_witness:
  "(\<forall>u. jwt_authenticate (\<lambda>_. Rejected) (Some ''Bearer x'') demo_created \<noteq> Inr (Some u)) \<and>
   (\<exists>detail. api_request (\<lambda>_. Rejected) (Some ''Bearer x'') ''GET'' (CreateGameAction [''ZZ99ZZ'']) demo_created =
      Some (demo_created, Resp (ErrorResp 401 detail)))"
proof -
  have wf: "wf_db demo_created" by (rule reachable_wf_db [OF demo_created_reachable])
  have anon: "\<forall>u. jwt_authenticate (\<lambda>_. Rejected) (Some ''Bearer x'') demo_created \<noteq> Inr (Some u)"
    by (simp add: jwt_authenticate_def ws_split.simps is_ws_def)
  from api_requires_login [OF wf anon, of "''GET''" "CreateGameAction [''ZZ99ZZ'']"] anon show ?thesis by blast
qed

lemma demo_broadcast_state:
  "exec demo_jwt [ASend ''a'' (move_frame 4), ARun ''a'', ARun ''a''] demo_sys \<noteq> None"
  "s_conns (demo_after [ASend ''a'' (move_frame 4), ARun ''a'', ARun ''a'']) ''a'' =
     Some \<lparr>c_room = demo_room, c_user = Some 1, c_auth = True,
       c_pc = Receive_broadcast (MoveMade (PyInt 4) MARK_X None ''----X----''), c_open = True\<rparr>"
  by code_simp+

theorem layer_never_full_witness:
  "layer_pending (demo_after [ASend ''a'' (move_frame 4), ARun ''a'', ARun ''a'']) ''c'' \<le> 10 \<and>
   group_send_cap 100 (group_name demo_room) (MoveMade (PyInt 4) MARK_X None ''----X----'')
       (demo_after [ASend ''a'' (move_frame 4), ARun ''a'', ARun ''a'']) =
     group_send (group_name demo_room) (MoveMade (PyInt 4) MARK_X None ''----X----'')
       (demo_after [ASend ''a'' (move_frame 4), ARun ''a'', ARun ''a''])"
proof -
  let ?s = "demo_after [ASend ''a'' (move_frame 4), ARun ''a'', ARun ''a'']"
  have wf: "wf_db (init_db demo_users)" by (rule init_db_wf) (simp add: demo_users_def)
  have r: "gw_reach demo_jwt (init_db demo_users) ?s"
    using demo_broadcast_state(1) unfolding demo_after_def by (metis demo_exec_reach option.collapse)
  from layer_never_full [OF wf r] demo_broadcast_state(2) show ?thesis by fastforce
qed

end
